theory Spec2Isabelle
  imports Complex_Main "HOL-Library.Sublist"
begin

section \<open>JavaScript values used by the services\<close>

text \<open>
  A JavaScript string is a sequence of UTF-16 code units; \<open>charCodeAt\<close> reads one unit
  as a number. A string is modelled as the list of its code units. Numbers that the code
  uses as counts, indices and millisecond clocks are integers; similarity scores and
  vector entries are reals.
\<close>

type_synonym jsstring = "nat list"

definition js :: "string \<Rightarrow> jsstring" where
  "js s = map of_char s"

text \<open>\<open>!s\<close> for a string: only the empty string is falsy.\<close>

definition truthy :: "jsstring \<Rightarrow> bool" where
  "truthy s = (s \<noteq> [])"

text \<open>\<open>Array.prototype.slice(0, n)\<close>: a negative end counts from the end of the array.\<close>

definition slice0 :: "'a list \<Rightarrow> int \<Rightarrow> 'a list" where
  "slice0 xs n = (if n < 0 then take (nat (int (length xs) + n)) xs else take (nat n) xs)"

text \<open>\<open>String.prototype.slice(a, b)\<close> with both bounds clamped as the language does.\<close>

definition clampIndex :: "int \<Rightarrow> nat \<Rightarrow> nat" where
  "clampIndex i n = (if i < 0 then nat (max (int n + i) 0) else min (nat i) n)"

definition slice :: "'a list \<Rightarrow> int \<Rightarrow> int \<Rightarrow> 'a list" where
  "slice s a b = (let lo = clampIndex a (length s); hi = clampIndex b (length s)
                  in take (hi - lo) (drop lo s))"

text \<open>
  White space as \<open>\\s\<close> and \<open>trim\<close> see it: the ASCII controls, the space, and the
  Unicode spaces and line separators.
\<close>

definition isWhiteSpace :: "nat \<Rightarrow> bool" where
  "isWhiteSpace c =
     (c \<in> {9, 10, 11, 12, 13, 32, 160, 5760, 8232, 8233, 8239, 8287, 12288, 65279}
      \<or> (8192 \<le> c \<and> c \<le> 8202))"

definition trim :: "jsstring \<Rightarrow> jsstring" where
  "trim s = rev (dropWhile isWhiteSpace (rev (dropWhile isWhiteSpace s)))"

text \<open>\<open>s.includes(pat)\<close>: \<open>pat\<close> occurs in \<open>s\<close> as a contiguous run.\<close>

definition matchesAt :: "jsstring \<Rightarrow> jsstring \<Rightarrow> nat \<Rightarrow> bool" where
  "matchesAt s pat i = (take (length pat) (drop i s) = pat)"

fun js_includes :: "jsstring \<Rightarrow> jsstring \<Rightarrow> bool" where
  "js_includes [] pat = (pat = [])"
| "js_includes (c # cs) pat = (matchesAt (c # cs) pat 0 \<or> js_includes cs pat)"

text \<open>
  \<open>s.lastIndexOf(pat, fromIndex)\<close>: the greatest index not above \<open>fromIndex\<close> at which
  \<open>pat\<close> occurs, or \<open>-1\<close>. Without \<open>fromIndex\<close> the search starts at the end.
\<close>

fun lastIndexOf_upto :: "jsstring \<Rightarrow> jsstring \<Rightarrow> nat \<Rightarrow> int" where
  "lastIndexOf_upto s pat 0 = (if matchesAt s pat 0 then 0 else - 1)"
| "lastIndexOf_upto s pat (Suc i) =
     (if matchesAt s pat (Suc i) then int (Suc i) else lastIndexOf_upto s pat i)"

definition lastIndexOfFrom :: "jsstring \<Rightarrow> jsstring \<Rightarrow> int \<Rightarrow> int" where
  "lastIndexOfFrom s pat fromIndex =
     lastIndexOf_upto s pat (nat (max 0 (min fromIndex (int (length s)))))"

definition lastIndexOf :: "jsstring \<Rightarrow> jsstring \<Rightarrow> int" where
  "lastIndexOf s pat = lastIndexOf_upto s pat (length s)"

text \<open>A number in a template string: its decimal digits.\<close>

fun decimal :: "nat \<Rightarrow> jsstring" where
  "decimal n = (if n < 10 then [48 + n] else decimal (n div 10) @ [48 + n mod 10])"

declare decimal.simps [simp del]

text \<open>
  Products with the literal \<open>0.7\<close> are doubles. \<open>roundToDouble p k\<close> is the double the
  exact value \<open>p / 2^k\<close> rounds to: 53 significant bits, ties to the even neighbour (the
  values met here are far from overflow and underflow). The literal \<open>0.7\<close> is the double
  \<open>6305039478318694 / 2^53\<close>, and an integer below \<open>2^53\<close> is a double as it stands, so
  \<open>times_0_7 n\<close> is the value of \<open>n * 0.7\<close>: for \<open>n = 90\<close> a little less than 63.
\<close>

fun bitLength :: "nat \<Rightarrow> nat" where
  "bitLength n = (if n = 0 then 0 else Suc (bitLength (n div 2)))"

declare bitLength.simps [simp del]

definition roundToDouble :: "nat \<Rightarrow> nat \<Rightarrow> real" where
  "roundToDouble p k =
     (let shift = bitLength p - 53;
          q = p div 2 ^ shift;
          r = p mod 2 ^ shift;
          q' = (if 2 * r > 2 ^ shift \<or> (2 * r = 2 ^ shift \<and> odd q) then q + 1 else q)
      in real (q' * 2 ^ shift) / 2 ^ k)"

definition times_0_7 :: "int \<Rightarrow> real" where
  "times_0_7 n =
     (if n \<ge> 0 then roundToDouble (nat n * 6305039478318694) 53
      else - roundToDouble (nat (- n) * 6305039478318694) 53)"

text \<open>
  \<open>toLowerCase\<close> on the code units A to Z. Other code units are kept: the case mapping
  of characters outside ASCII is not modelled (none of them maps to a letter of the
  keywords searched for below).
\<close>

definition toLowerCase :: "jsstring \<Rightarrow> jsstring" where
  "toLowerCase s = map (\<lambda>c. if 65 \<le> c \<and> c \<le> 90 then c + 32 else c) s"

section \<open>Search results and sources (ragService.js)\<close>

text \<open>
  The payload stored with a vector at ingestion. Every field may be missing in what a
  search returns.
\<close>

record payload =
  payload_text :: "jsstring option"
  articleId :: "jsstring option"
  articleTitle :: "jsstring option"
  articleUrl :: "jsstring option"
  source :: "jsstring option"
  publishDate :: "jsstring option"
  payload_chunkIndex :: "nat option"
  payload_totalChunks :: "nat option"

record search_result =
  result_id :: nat
  score :: real
  result_payload :: "payload option"

record source_ref =
  title :: jsstring
  url :: jsstring
  source_name :: jsstring
  source_publishDate :: "jsstring option"
  relevanceScore :: real

text \<open>\<open>x || dflt\<close> for an optional string field: a missing or empty value gives the default.\<close>

definition orElse :: "jsstring option \<Rightarrow> jsstring \<Rightarrow> jsstring" where
  "orElse x dflt = (case x of None \<Rightarrow> dflt | Some s \<Rightarrow> if truthy s then s else dflt)"

text \<open>
  The loop of \<open>extractSources\<close>: \<open>sources\<close> is the array built so far (in push order) and
  \<open>seenUrls\<close> the set of URLs already taken.
\<close>

fun extractSources_loop ::
  "search_result list \<Rightarrow> source_ref list \<Rightarrow> jsstring set \<Rightarrow> source_ref list" where
  "extractSources_loop [] sources seenUrls = sources"
| "extractSources_loop (r # rs) sources seenUrls =
     (case result_payload r of
        None \<Rightarrow> extractSources_loop rs sources seenUrls
      | Some p \<Rightarrow>
          (case articleUrl p of
             None \<Rightarrow> extractSources_loop rs sources seenUrls
           | Some u \<Rightarrow>
               if truthy u \<and> u \<notin> seenUrls
               then extractSources_loop rs
                      (sources @ [\<lparr>title = orElse (articleTitle p) (js ''Untitled Article''),
                                   url = u,
                                   source_name = orElse (source p) (js ''Unknown Source''),
                                   source_publishDate = publishDate p,
                                   relevanceScore = score r\<rparr>])
                      (insert u seenUrls)
               else extractSources_loop rs sources seenUrls))"

definition extractSources :: "search_result list \<Rightarrow> source_ref list" where
  "extractSources results = slice0 (extractSources_loop results [] {}) 5"

section \<open>The query pipeline (ragService.js, processQuery)\<close>

text \<open>
  Every exception of the services is a value of \<open>error\<close>; a call that may throw returns
  \<open>error + 'a\<close>, with \<open>Inl\<close> for the exception. \<open>TypeError\<close> is what the language throws
  when a property of \<open>null\<close> is read; \<open>ProviderError\<close> stands for whatever a collaborator
  or a remote client throws, with its message.
\<close>

datatype error =
    RagNotInitialized
  | VectorStoreNotInitialized
  | InvalidVectorData
  | VectorSizeMismatch int int
  | InvalidVectorsData
  | TextMustBeNonEmptyString
  | TypeError
  | ProviderError jsstring

record message =
  role :: jsstring
  content :: jsstring
  msg_timestamp :: int
  msg_sources :: "source_ref list option"
  msg_contextUsed :: "nat option"
  msg_error :: bool

record response =
  query :: jsstring
  response_text :: jsstring
  model :: jsstring
  sources :: "source_ref list"
  contextUsed :: nat
  sessionId :: jsstring
  timestamp :: int
  cached :: bool
  tokensUsed :: "nat option"
  response_error :: "error option"

record ai_response =
  ai_text :: jsstring
  ai_model :: jsstring
  ai_tokensUsed :: nat

text \<open>
  The filter object of a recent-news search, \<open>{must: [{range: {publishDate: {gte: d}}}]}\<close>,
  with the instant \<open>d\<close> in milliseconds.
\<close>

datatype search_filter = PublishDateGte int

record options =
  useCache :: bool
  includeHistory :: bool
  maxResults :: int
  minSimilarity :: real

text \<open>The literal \<open>0.3\<close>: the double nearest to three tenths, as a real.\<close>

definition double_0_3 :: real where
  "double_0_3 = 5404319552844595 / 18014398509481984"

text \<open>
  The options a caller gets when it passes none; \<open>topKResults\<close> is
  \<open>config.rag.topKResults\<close>.
\<close>

definition default_options :: "int \<Rightarrow> options" where
  "default_options topKResults =
     \<lparr>useCache = True, includeHistory = True, maxResults = topKResults,
      minSimilarity = double_0_3\<rparr>"

text \<open>
  The third argument of \<open>processQuery\<close> as a caller passes it: left out (or
  \<open>undefined\<close>), \<open>null\<close>, or an object each of whose four properties may be missing.
\<close>

record options_object =
  given_useCache :: "bool option"
  given_includeHistory :: "bool option"
  given_maxResults :: "int option"
  given_minSimilarity :: "real option"

datatype options_arg = OptionsOmitted | OptionsNull | OptionsObject options_object

text \<open>
  The destructuring \<open>const {useCache = true, ...} = options\<close>. The parameter default
  \<open>options = {}\<close> replaces a missing argument only, so \<open>null\<close> reaches the destructuring,
  which throws; a missing property takes its default.
\<close>

definition destructureOptions :: "int \<Rightarrow> options_arg \<Rightarrow> error + options" where
  "destructureOptions topKResults arg =
     (case arg of
        OptionsNull \<Rightarrow> Inl TypeError
      | OptionsOmitted \<Rightarrow> Inr (default_options topKResults)
      | OptionsObject obj \<Rightarrow>
          Inr \<lparr>useCache = (case given_useCache obj of None \<Rightarrow> True | Some b \<Rightarrow> b),
               includeHistory = (case given_includeHistory obj of None \<Rightarrow> True | Some b \<Rightarrow> b),
               maxResults = (case given_maxResults obj of None \<Rightarrow> topKResults | Some n \<Rightarrow> n),
               minSimilarity =
                 (case given_minSimilarity obj of None \<Rightarrow> double_0_3 | Some x \<Rightarrow> x)\<rparr>)"

text \<open>
  The calls \<open>processQuery\<close> makes on its collaborators. A run returns, next to its
  result, the trace of the calls it made, each with the exception it threw, if any.
\<close>

datatype call =
    GetCachedQueryResult jsstring
  | GenerateEmbedding jsstring
  | SearchSimilar "real list" int "search_filter option"
  | GetChatHistory jsstring int
  | GenerateResponse jsstring "search_result list" "message list"
  | CacheQueryResult jsstring response
  | AddMessage jsstring message

type_synonym trace = "(call \<times> error option) list"

text \<open>
  The collaborators are parameters: each answers from the calls made before it in this run
  and its arguments, by a value or by an exception. Nothing is assumed about them.
\<close>

record env =
  redis_getCachedQueryResult :: "call list \<Rightarrow> jsstring \<Rightarrow> error + response option"
  embedding_generateEmbedding :: "call list \<Rightarrow> jsstring \<Rightarrow> error + real list"
  vector_searchSimilar ::
    "call list \<Rightarrow> real list \<Rightarrow> int \<Rightarrow> search_filter option \<Rightarrow> error + search_result list"
  redis_getChatHistory :: "call list \<Rightarrow> jsstring \<Rightarrow> int \<Rightarrow> error + message list"
  gemini_generateResponse ::
    "call list \<Rightarrow> jsstring \<Rightarrow> search_result list \<Rightarrow> message list \<Rightarrow> error + ai_response"
  redis_cacheQueryResult :: "call list \<Rightarrow> jsstring \<Rightarrow> response \<Rightarrow> error + unit"
  redis_addMessage :: "call list \<Rightarrow> jsstring \<Rightarrow> message \<Rightarrow> error + unit"

definition invoke :: "(call list \<Rightarrow> error + 'a) \<Rightarrow> call \<Rightarrow> trace \<Rightarrow> (error + 'a) \<times> trace" where
  "invoke f c tr =
     (let r = f (map fst tr)
      in (r, tr @ [(c, case r of Inl e \<Rightarrow> Some e | Inr _ \<Rightarrow> None)]))"

text \<open>Sequencing inside a \<open>try\<close> block: an exception skips the rest.\<close>

definition andThen ::
  "(error + 'a) \<times> trace \<Rightarrow> ('a \<Rightarrow> trace \<Rightarrow> (error + 'b) \<times> trace) \<Rightarrow> (error + 'b) \<times> trace" where
  "andThen r k = (case r of (Inl e, tr) \<Rightarrow> (Inl e, tr) | (Inr x, tr) \<Rightarrow> k x tr)"

definition isRecentNewsQuery :: "jsstring \<Rightarrow> bool" where
  "isRecentNewsQuery q =
     (js_includes (toLowerCase q) (js ''today'') \<or>
      js_includes (toLowerCase q) (js ''recent'') \<or>
      js_includes (toLowerCase q) (js ''latest'') \<or>
      js_includes (toLowerCase q) (js ''current''))"

definition threeDaysAgo :: "int \<Rightarrow> int" where
  "threeDaysAgo today = today - 3 * 24 * 60 * 60 * 1000"

text \<open>Step 2 of \<open>processQuery\<close>: the search, with its inner \<open>try\<close> around the filtered call.\<close>

definition retrieve ::
  "env \<Rightarrow> jsstring \<Rightarrow> real list \<Rightarrow> options \<Rightarrow> int \<Rightarrow> trace \<Rightarrow> (error + search_result list) \<times> trace" where
  "retrieve ev q queryEmbedding opts now tr =
     (if isRecentNewsQuery q
      then (case invoke (\<lambda>h. vector_searchSimilar ev h queryEmbedding (maxResults opts * 2)
                                 (Some (PublishDateGte (threeDaysAgo now))))
                        (SearchSimilar queryEmbedding (maxResults opts * 2)
                                 (Some (PublishDateGte (threeDaysAgo now)))) tr of
              (Inr searchResults, tr') \<Rightarrow> (Inr searchResults, tr')
            | (Inl e, tr') \<Rightarrow>
                invoke (\<lambda>h. vector_searchSimilar ev h queryEmbedding (maxResults opts * 2) None)
                       (SearchSimilar queryEmbedding (maxResults opts * 2) None) tr')
      else invoke (\<lambda>h. vector_searchSimilar ev h queryEmbedding (maxResults opts * 2) None)
                  (SearchSimilar queryEmbedding (maxResults opts * 2) None) tr)"

definition relevant :: "options \<Rightarrow> search_result list \<Rightarrow> search_result list" where
  "relevant opts searchResults =
     slice0 (filter (\<lambda>r. score r \<ge> minSimilarity opts) searchResults) (maxResults opts)"

definition userMessage :: "jsstring \<Rightarrow> int \<Rightarrow> message" where
  "userMessage q now =
     \<lparr>role = js ''user'', content = q, msg_timestamp = now, msg_sources = None,
      msg_contextUsed = None, msg_error = False\<rparr>"

text \<open>Steps 5 to 7: the response object, the cache write and the two history entries.\<close>

definition persist ::
  "env \<Rightarrow> jsstring \<Rightarrow> jsstring \<Rightarrow> options \<Rightarrow> int \<Rightarrow> search_result list \<Rightarrow> ai_response \<Rightarrow>
   trace \<Rightarrow> (error + response) \<times> trace" where
  "persist ev q sid opts now relevantResults aiResponse tr =
     (let resp = \<lparr>query = q, response_text = ai_text aiResponse, model = ai_model aiResponse,
                   sources = extractSources relevantResults,
                   contextUsed = length relevantResults, sessionId = sid, timestamp = now,
                   cached = False, tokensUsed = Some (ai_tokensUsed aiResponse),
                   response_error = None\<rparr>
      in andThen (if useCache opts \<and> truthy (response_text resp)
                  then invoke (\<lambda>h. redis_cacheQueryResult ev h q resp) (CacheQueryResult q resp) tr
                  else (Inr (), tr))
           (\<lambda>_ tr. andThen (invoke (\<lambda>h. redis_addMessage ev h sid (userMessage q now))
                                  (AddMessage sid (userMessage q now)) tr)
           (\<lambda>_ tr. andThen (invoke (\<lambda>h. redis_addMessage ev h sid
                                     \<lparr>role = js ''assistant'', content = response_text resp,
                                      msg_timestamp = now, msg_sources = Some (sources resp),
                                      msg_contextUsed = Some (contextUsed resp), msg_error = False\<rparr>)
                                  (AddMessage sid
                                     \<lparr>role = js ''assistant'', content = response_text resp,
                                      msg_timestamp = now, msg_sources = Some (sources resp),
                                      msg_contextUsed = Some (contextUsed resp), msg_error = False\<rparr>) tr)
           (\<lambda>_ tr. (Inr resp, tr)))))"

text \<open>
  The body of the \<open>try\<close> block: \<open>Inl e\<close> is the exception that leaves it. The clock is
  read once, as \<open>now\<close>, for every timestamp of the run.
\<close>

definition tryBlock ::
  "env \<Rightarrow> jsstring \<Rightarrow> jsstring \<Rightarrow> options \<Rightarrow> int \<Rightarrow> (error + response) \<times> trace" where
  "tryBlock ev q sid opts now =
     andThen (if useCache opts
              then invoke (\<lambda>h. redis_getCachedQueryResult ev h q) (GetCachedQueryResult q) []
              else (Inr None, []))
       (\<lambda>cachedResult tr.
          case cachedResult of
            Some c \<Rightarrow> (Inr (c\<lparr>cached := True, timestamp := now\<rparr>), tr)
          | None \<Rightarrow>
     andThen (invoke (\<lambda>h. embedding_generateEmbedding ev h q) (GenerateEmbedding q) tr)
       (\<lambda>queryEmbedding tr.
     andThen (retrieve ev q queryEmbedding opts now tr)
       (\<lambda>searchResults tr.
     andThen (if includeHistory opts
              then invoke (\<lambda>h. redis_getChatHistory ev h sid 10) (GetChatHistory sid 10) tr
              else (Inr [], tr))
       (\<lambda>conversationHistory tr.
     andThen (invoke (\<lambda>h. gemini_generateResponse ev h q (relevant opts searchResults)
                                conversationHistory)
                     (GenerateResponse q (relevant opts searchResults) conversationHistory) tr)
       (\<lambda>aiResponse tr.
          persist ev q sid opts now (relevant opts searchResults) aiResponse tr)))))"

definition apology :: "jsstring \<Rightarrow> jsstring" where
  "apology q =
     js ''I apologize, but I encountered an error while processing your question: '' @ [34] @ q
     @ [34] @ js ''. Please try again or rephrase your question.''"

definition fallbackResponse :: "jsstring \<Rightarrow> jsstring \<Rightarrow> int \<Rightarrow> error \<Rightarrow> response" where
  "fallbackResponse q sid now e =
     \<lparr>query = q, response_text = apology q, model = js ''fallback'', sources = [],
      contextUsed = 0, sessionId = sid, timestamp = now, cached = False, tokensUsed = None,
      response_error = Some e\<rparr>"

text \<open>
  The \<open>catch\<close> block: the two history entries are written inside a \<open>try\<close> of their own,
  whose exception is logged and dropped.
\<close>

definition catchBlock ::
  "env \<Rightarrow> jsstring \<Rightarrow> jsstring \<Rightarrow> int \<Rightarrow> error \<Rightarrow> trace \<Rightarrow> (error + response) \<times> trace" where
  "catchBlock ev q sid now e tr =
     (case andThen (invoke (\<lambda>h. redis_addMessage ev h sid (userMessage q now))
                           (AddMessage sid (userMessage q now)) tr)
             (\<lambda>_ tr. invoke (\<lambda>h. redis_addMessage ev h sid
                                 \<lparr>role = js ''assistant'', content = apology q,
                                  msg_timestamp = now, msg_sources = None,
                                  msg_contextUsed = None, msg_error = True\<rparr>)
                              (AddMessage sid
                                 \<lparr>role = js ''assistant'', content = apology q,
                                  msg_timestamp = now, msg_sources = None,
                                  msg_contextUsed = None, msg_error = True\<rparr>) tr) of
        (_, tr') \<Rightarrow> (Inr (fallbackResponse q sid now e), tr'))"

text \<open>
  \<open>processQuery\<close>: the guard and the destructuring of the options stand ahead of the
  \<open>try\<close> block, so what they throw reaches the caller.
\<close>

definition processQuery ::
  "bool \<Rightarrow> int \<Rightarrow> env \<Rightarrow> jsstring \<Rightarrow> jsstring \<Rightarrow> options_arg \<Rightarrow> int \<Rightarrow>
   (error + response) \<times> trace" where
  "processQuery isInitialized topKResults ev q sid arg now =
     (if \<not> isInitialized then (Inl RagNotInitialized, [])
      else case destructureOptions topKResults arg of
             Inl e \<Rightarrow> (Inl e, [])
           | Inr opts \<Rightarrow>
               (case tryBlock ev q sid opts now of
                  (Inr resp, tr) \<Rightarrow> (Inr resp, tr)
                | (Inl e, tr) \<Rightarrow> catchBlock ev q sid now e tr))"

section \<open>The vector store (vectorStore.js)\<close>

text \<open>
  \<open>hashId\<close> folds the code units of its argument into a 32-bit integer:
  \<open>hash << 5\<close> and \<open>hash & hash\<close> both reduce to the signed 32-bit range, the
  subtraction and the addition between them are exact. \<open>Math.abs\<close> is taken at the end.
\<close>

definition toInt32 :: "int \<Rightarrow> int" where
  "toInt32 x = (x + 2147483648) mod 4294967296 - 2147483648"

definition hashStep :: "int \<Rightarrow> nat \<Rightarrow> int" where
  "hashStep hash char = toInt32 ((toInt32 (hash * 32) - hash) + int char)"

definition hashId :: "jsstring \<Rightarrow> int" where
  "hashId str = \<bar>foldl hashStep 0 str\<bar>"

text \<open>
  The argument of \<open>upsertVector\<close> and the elements of \<open>upsertBatch\<close>. \<open>vector = None\<close>
  stands for a missing value or one that is not an array.
\<close>

record vector_data =
  data_id :: jsstring
  vector :: "real list option"
  data_payload :: "payload option"

record vector_entry =
  entry_vector :: "real list option"
  entry_payload :: "payload option"

text \<open>
  A point as it is passed to the Qdrant client; its payload is \<open>payload || {}\<close>, the
  empty object when the caller gave none.
\<close>

record point =
  point_id :: int
  point_vector :: "real list option"
  point_payload :: payload

definition emptyPayload :: payload where
  "emptyPayload =
     \<lparr>payload_text = None, articleId = None, articleTitle = None, articleUrl = None,
      source = None, publishDate = None, payload_chunkIndex = None, payload_totalChunks = None\<rparr>"

definition payloadOrEmpty :: "payload option \<Rightarrow> payload" where
  "payloadOrEmpty p = (case p of None \<Rightarrow> emptyPayload | Some x \<Rightarrow> x)"

text \<open>
  The state of a \<open>VectorStore\<close>. \<open>hasClient\<close> says that \<open>this.client\<close> is set;
  \<open>inMemoryVectors\<close> is the fallback \<open>Map\<close> in insertion order; \<open>upserts\<close> lists the
  point arrays passed to \<open>client.upsert\<close>, oldest first.
\<close>

record vector_store =
  hasClient :: bool
  store_isInitialized :: bool
  vectorSize :: int
  inMemoryVectors :: "(jsstring \<times> vector_entry) list"
  upserts :: "point list list"

text \<open>\<open>Map.prototype.set\<close>: an existing key keeps its place and takes the new value.\<close>

fun mapSet :: "'k \<Rightarrow> 'v \<Rightarrow> ('k \<times> 'v) list \<Rightarrow> ('k \<times> 'v) list" where
  "mapSet k v [] = [(k, v)]"
| "mapSet k v ((k', v') # kvs) = (if k' = k then (k, v) # kvs else (k', v') # mapSet k v kvs)"

definition initializeFallback :: "vector_store \<Rightarrow> vector_store" where
  "initializeFallback s = s\<lparr>hasClient := False, inMemoryVectors := [], store_isInitialized := True\<rparr>"

text \<open>
  \<open>upsertVector\<close>. The parameter \<open>remote\<close> is the answer of the Qdrant service to an
  upsert of the given points.
\<close>

definition upsertVector ::
  "(point list \<Rightarrow> error + unit) \<Rightarrow> vector_store \<Rightarrow> vector_data \<Rightarrow> (error + unit) \<times> vector_store" where
  "upsertVector remote s d =
     (if \<not> store_isInitialized s then (Inl VectorStoreNotInitialized, s)
      else case vector d of
        None \<Rightarrow> (Inl InvalidVectorData, s)
      | Some v \<Rightarrow>
          if \<not> truthy (data_id d) then (Inl InvalidVectorData, s)
          else if int (length v) \<noteq> vectorSize s
          then (Inl (VectorSizeMismatch (vectorSize s) (int (length v))), s)
          else if hasClient s
          then (let points = [\<lparr>point_id = hashId (data_id d), point_vector = Some v,
                                 point_payload = payloadOrEmpty (data_payload d)\<rparr>]
                in (remote points, s\<lparr>upserts := upserts s @ [points]\<rparr>))
          else (Inr (), s\<lparr>inMemoryVectors :=
                              mapSet (data_id d)
                                \<lparr>entry_vector = Some v, entry_payload = data_payload d\<rparr>
                                (inMemoryVectors s)\<rparr>))"

definition upsertBatch ::
  "(point list \<Rightarrow> error + unit) \<Rightarrow> vector_store \<Rightarrow> vector_data list \<Rightarrow> (error + unit) \<times> vector_store" where
  "upsertBatch remote s vectorsData =
     (if \<not> store_isInitialized s then (Inl VectorStoreNotInitialized, s)
      else if vectorsData = [] then (Inl InvalidVectorsData, s)
      else if hasClient s
      then (let points = map (\<lambda>d. \<lparr>point_id = hashId (data_id d), point_vector = vector d,
                                      point_payload = payloadOrEmpty (data_payload d)\<rparr>)
                       vectorsData
            in (remote points, s\<lparr>upserts := upserts s @ [points]\<rparr>))
      else (Inr (), s\<lparr>inMemoryVectors :=
                          foldl (\<lambda>m d. mapSet (data_id d)
                                          \<lparr>entry_vector = vector d, entry_payload = data_payload d\<rparr> m)
                                (inMemoryVectors s) vectorsData\<rparr>))"

text \<open>
  \<open>countVectors\<close>. With a client the count is the length of what a wide search returns
  (\<open>remoteCount\<close>), and a failed search counts as 0.
\<close>

definition countVectors :: "(error + nat) \<Rightarrow> vector_store \<Rightarrow> error + nat" where
  "countVectors remoteCount s =
     (if \<not> store_isInitialized s then Inl VectorStoreNotInitialized
      else if hasClient s
      then (case remoteCount of Inl _ \<Rightarrow> Inr 0 | Inr n \<Rightarrow> Inr n)
      else Inr (length (inMemoryVectors s)))"

section \<open>The embedding service (embeddingService.js)\<close>







section \<open>Chunking at ingestion (ingestUniqueArticles.js and the ingestNews script)\<close>

record article =
  article_id :: jsstring
  article_title :: jsstring
  article_description :: jsstring
  article_content :: jsstring

record chunk =
  chunk_id :: jsstring
  chunk_text :: jsstring
  chunk_index :: nat

record span_chunk = chunk +
  chunk_start :: int
  chunk_end :: int

definition chunkId :: "jsstring \<Rightarrow> nat \<Rightarrow> jsstring" where
  "chunkId aid chunkIndex = aid @ js ''_chunk_'' @ decimal chunkIndex"

text \<open>
  One pass through the body of the \<open>while\<close> loop of \<open>createTextChunksWithOverlap\<close>, from
  the window start: the break point chosen and the next start. The test
  \<open>lastSentenceEnd > chunkSize * 0.7\<close> compares with the double the product gives.
\<close>

definition overlapBreakPoint :: "jsstring \<Rightarrow> int \<Rightarrow> int \<Rightarrow> int" where
  "overlapBreakPoint t chunkSize start =
     (let end = min (start + chunkSize) (int (length t));
          chunkText = slice t start end;
          lastSentenceEnd = lastIndexOf chunkText (js ''. '')
      in if end < int (length t) \<and> real_of_int lastSentenceEnd > times_0_7 chunkSize
         then start + lastSentenceEnd + 2 else end)"

definition overlapNextStart :: "jsstring \<Rightarrow> int \<Rightarrow> int \<Rightarrow> int \<Rightarrow> int" where
  "overlapNextStart t chunkSize overlap start =
     max (start + chunkSize - overlap) (overlapBreakPoint t chunkSize start)"

text \<open>
  The loop. \<open>fuel\<close> bounds the number of iterations the model follows; \<open>None\<close> says
  that the loop was still running when the fuel ran out.
\<close>

fun overlapLoop ::
  "nat \<Rightarrow> jsstring \<Rightarrow> jsstring \<Rightarrow> int \<Rightarrow> int \<Rightarrow> int \<Rightarrow> nat \<Rightarrow> chunk list \<Rightarrow> chunk list option" where
  "overlapLoop 0 t aid chunkSize overlap start chunkIndex chunks = None"
| "overlapLoop (Suc fuel) t aid chunkSize overlap start chunkIndex chunks =
     (if \<not> start < int (length t) then Some chunks
      else let breakPoint = overlapBreakPoint t chunkSize start;
               chunks' = chunks @ [\<lparr>chunk_id = chunkId aid chunkIndex,
                                     chunk_text = trim (slice t start breakPoint),
                                     chunk_index = chunkIndex\<rparr>];
               start' = overlapNextStart t chunkSize overlap start
           in if start' \<ge> int (length t) then Some chunks'
              else overlapLoop fuel t aid chunkSize overlap start' (chunkIndex + 1) chunks')"

definition createTextChunksWithOverlap ::
  "nat \<Rightarrow> article \<Rightarrow> int \<Rightarrow> int \<Rightarrow> chunk list option" where
  "createTextChunksWithOverlap fuel a chunkSize overlap =
     (let t = article_title a @ [10, 10] @ article_content a
      in if int (length t) \<le> chunkSize
         then Some [\<lparr>chunk_id = chunkId (article_id a) 0, chunk_text = t, chunk_index = 0\<rparr>]
         else overlapLoop fuel t (article_id a) chunkSize overlap 0 0 [])"

text \<open>
  \<open>createTextChunks\<close> of the ingestNews script. \<open>textChunkEnd\<close> is the end of the chunk
  that starts at \<open>start\<close>; the test \<open>boundary > start + maxChunkSize * 0.5\<close> is compared
  exactly: halving a double is exact.
\<close>

definition textChunkEnd :: "jsstring \<Rightarrow> int \<Rightarrow> int \<Rightarrow> int" where
  "textChunkEnd fullText maxChunkSize start =
     (let end = min (start + maxChunkSize) (int (length fullText))
      in if end < int (length fullText)
         then (let lastPeriod = lastIndexOfFrom fullText [46] end;
                   lastNewline = lastIndexOfFrom fullText [10] end;
                   boundary = max lastPeriod lastNewline
               in if 2 * boundary > 2 * start + maxChunkSize then boundary + 1 else end)
         else end)"

fun textLoop ::
  "nat \<Rightarrow> jsstring \<Rightarrow> jsstring \<Rightarrow> int \<Rightarrow> int \<Rightarrow> int \<Rightarrow> nat \<Rightarrow> span_chunk list \<Rightarrow>
   span_chunk list option" where
  "textLoop 0 fullText aid maxChunkSize overlap start chunkIndex chunks = None"
| "textLoop (Suc fuel) fullText aid maxChunkSize overlap start chunkIndex chunks =
     (if \<not> start < int (length fullText) then Some chunks
      else let chunkEnd = textChunkEnd fullText maxChunkSize start;
               chunkText = trim (slice fullText start chunkEnd);
               meaningful = (length chunkText > 50);
               chunks' = (if meaningful
                          then chunks @ [\<lparr>chunk_id = chunkId aid chunkIndex, chunk_text = chunkText,
                                           chunk_index = chunkIndex, chunk_start = start,
                                           chunk_end = chunkEnd\<rparr>]
                          else chunks);
               chunkIndex' = (if meaningful then chunkIndex + 1 else chunkIndex);
               start' = chunkEnd - overlap
           in if start' \<ge> chunkEnd then Some chunks'
              else textLoop fuel fullText aid maxChunkSize overlap start' chunkIndex' chunks')"

definition fullTextOf :: "article \<Rightarrow> jsstring" where
  "fullTextOf a =
     article_title a @ [10, 10] @ article_description a @ [10, 10] @ article_content a"

definition createTextChunks :: "nat \<Rightarrow> article \<Rightarrow> int \<Rightarrow> int \<Rightarrow> span_chunk list option" where
  "createTextChunks fuel a maxChunkSize overlap =
     textLoop fuel (fullTextOf a) (article_id a) maxChunkSize overlap 0 0 []"

section \<open>The key-value client with its in-process fallback (redisClient.js)\<close>

text \<open>
  The keys \<open>session:<id>\<close>, \<open>chat:<id>\<close> and \<open>query:<text>\<close>: the constructor is the
  prefix, its argument the text after it.
\<close>

datatype redis_key = SessionKey jsstring | ChatKey jsstring | QueryKey jsstring

text \<open>
  \<open>Buffer.from(query)\<close>: the UTF-8 bytes of the string. A surrogate pair is one code point
  of four bytes; a surrogate without its partner becomes U+FFFD.
\<close>

fun utf8 :: "jsstring \<Rightarrow> nat list" where
  "utf8 [] = []"
| "utf8 [c] =
     (if c < 128 then [c]
      else if c < 2048 then [192 + c div 64, 128 + c mod 64]
      else if 55296 \<le> c \<and> c \<le> 57343 then [239, 191, 189]
      else [224 + c div 4096, 128 + (c div 64) mod 64, 128 + c mod 64])"
| "utf8 (c # d # cs) =
     (if c < 128 then c # utf8 (d # cs)
      else if c < 2048 then [192 + c div 64, 128 + c mod 64] @ utf8 (d # cs)
      else if 55296 \<le> c \<and> c \<le> 56319 \<and> 56320 \<le> d \<and> d \<le> 57343
      then (let cp = 65536 + (c - 55296) * 1024 + (d - 56320)
            in [240 + cp div 262144, 128 + (cp div 4096) mod 64, 128 + (cp div 64) mod 64,
                128 + cp mod 64] @ utf8 cs)
      else if 55296 \<le> c \<and> c \<le> 57343 then [239, 191, 189] @ utf8 (d # cs)
      else [224 + c div 4096, 128 + (c div 64) mod 64, 128 + c mod 64] @ utf8 (d # cs))"

text \<open>\<open>toString('base64')\<close>: three bytes become four characters, with \<open>=\<close> as padding.\<close>

definition base64Char :: "nat \<Rightarrow> nat" where
  "base64Char i =
     (if i < 26 then 65 + i
      else if i < 52 then 97 + (i - 26)
      else if i < 62 then 48 + (i - 52)
      else if i = 62 then 43 else 47)"

fun base64 :: "nat list \<Rightarrow> jsstring" where
  "base64 [] = []"
| "base64 [a] = [base64Char (a div 4), base64Char ((a mod 4) * 16), 61, 61]"
| "base64 [a, b] =
     [base64Char (a div 4), base64Char ((a mod 4) * 16 + b div 16),
      base64Char ((b mod 16) * 4), 61]"
| "base64 (a # b # c # bytes) =
     [base64Char (a div 4), base64Char ((a mod 4) * 16 + b div 16),
      base64Char ((b mod 16) * 4 + c div 64), base64Char (c mod 64)] @ base64 bytes"

definition queryKey :: "jsstring \<Rightarrow> redis_key" where
  "queryKey q = QueryKey (base64 (utf8 q))"

text \<open>
  The commands the code sends to the networked client, and the decoded replies. A value
  written or read is of type \<open>'v\<close> (a session object or a query result). \<open>Text (Some v)\<close>
  is a stored string that parses to \<open>v\<close>, \<open>Text None\<close> the reply \<open>null\<close>; a string that does
  not parse is the exception \<open>JSON.parse\<close> throws.
\<close>

datatype 'v command =
    HSet redis_key 'v
  | Expire redis_key int
  | Type redis_key
  | HGetAll redis_key
  | Get redis_key
  | Del redis_key
  | LPush redis_key message
  | LTrim redis_key int int
  | LRange redis_key int int
  | SetEx redis_key int 'v

datatype 'v reply =
    Done
  | KeyType jsstring
  | Hash "'v option"
  | Text "'v option"
  | Items "message list"

text \<open>
  The server is a parameter: it answers a command, given the commands this client sent
  before, by a reply or by an exception.
\<close>

type_synonym 'v server = "'v command list \<Rightarrow> 'v command \<Rightarrow> error + 'v reply"

record 'v stored =
  data :: 'v
  expires :: int

text \<open>
  The fields of \<open>RedisClient\<close>. \<open>client\<close> says that \<open>this.client\<close> is set, which is also
  when the three event handlers are registered; \<open>clientCalls\<close> lists the commands sent
  to the networked client, oldest first. The newest message of a list is its head.
\<close>

record 'v redis_client =
  client :: bool
  isConnected :: bool
  fallbackMode :: bool
  inMemoryStore :: "redis_key \<Rightarrow> 'v stored option"
  inMemoryLists :: "redis_key \<Rightarrow> message list option"
  connectionAttempted :: bool
  clientCalls :: "'v command list"

definition newRedisClient :: "'v redis_client" where
  "newRedisClient =
     \<lparr>client = False, isConnected = False, fallbackMode = False, inMemoryStore = Map.empty,
      inMemoryLists = Map.empty, connectionAttempted = False, clientCalls = []\<rparr>"

text \<open>The handlers registered on the client in \<open>_attemptConnection\<close>.\<close>

datatype client_event = ErrorEvent | ConnectEvent | DisconnectEvent

definition onEvent :: "client_event \<Rightarrow> 'v redis_client \<Rightarrow> 'v redis_client" where
  "onEvent ev s =
     (if \<not> client s then s
      else case ev of
        ErrorEvent \<Rightarrow> (if \<not> fallbackMode s then s\<lparr>fallbackMode := True, isConnected := False\<rparr> else s)
      | ConnectEvent \<Rightarrow> s\<lparr>isConnected := True, fallbackMode := False\<rparr>
      | DisconnectEvent \<Rightarrow> s\<lparr>isConnected := False, fallbackMode := True\<rparr>)"

text \<open>
  \<open>_attemptConnection\<close>: \<open>available\<close> is the result of the availability probe, \<open>events\<close>
  the events the client emits while \<open>client.connect()\<close> runs, and \<open>connectOk\<close> whether that
  call returns rather than throws.
\<close>

definition attemptConnection ::
  "bool \<Rightarrow> client_event list \<Rightarrow> bool \<Rightarrow> 'v redis_client \<Rightarrow> 'v redis_client" where
  "attemptConnection available events connectOk s =
     (if \<not> available then s\<lparr>fallbackMode := True, isConnected := False\<rparr>
      else let s' = foldl (\<lambda>st ev. onEvent ev st) (s\<lparr>client := True\<rparr>) events
           in if connectOk then s' else s'\<lparr>fallbackMode := True, isConnected := False\<rparr>)"

definition connect ::
  "bool \<Rightarrow> client_event list \<Rightarrow> bool \<Rightarrow> 'v redis_client \<Rightarrow> 'v redis_client" where
  "connect available events connectOk s =
     (if connectionAttempted s then s
      else attemptConnection available events connectOk (s\<lparr>connectionAttempted := True\<rparr>))"

definition disconnect :: "'v redis_client \<Rightarrow> 'v redis_client" where
  "disconnect s = (if client s \<and> isConnected s then s\<lparr>isConnected := False\<rparr> else s)"

text \<open>\<open>getClient()\<close>: whether it returns the client rather than \<open>null\<close>.\<close>

definition getClient :: "'v redis_client \<Rightarrow> bool" where
  "getClient s = (if fallbackMode s then False
                  else if \<not> client s \<or> \<not> isConnected s then False else True)"

text \<open>Sending one command: the reply, and the state with the command logged.\<close>

definition send :: "'v server \<Rightarrow> 'v command \<Rightarrow> 'v redis_client \<Rightarrow> (error + 'v reply) \<times> 'v redis_client" where
  "send srv c s = (srv (clientCalls s) c, s\<lparr>clientCalls := clientCalls s @ [c]\<rparr>)"

subsection \<open>Sessions\<close>

definition memSet :: "redis_key \<Rightarrow> 'v \<Rightarrow> int \<Rightarrow> int \<Rightarrow> 'v redis_client \<Rightarrow> 'v redis_client" where
  "memSet key v ttl now s =
     s\<lparr>inMemoryStore := (inMemoryStore s)(key \<mapsto> \<lparr>data = v, expires = now + ttl * 1000\<rparr>)\<rparr>"

definition memGet :: "redis_key \<Rightarrow> int \<Rightarrow> 'v redis_client \<Rightarrow> 'v option \<times> 'v redis_client" where
  "memGet key now s =
     (case inMemoryStore s key of
        None \<Rightarrow> (None, s)
      | Some st \<Rightarrow>
          if now > expires st then (None, s\<lparr>inMemoryStore := (inMemoryStore s)(key := None)\<rparr>)
          else (Some (data st), s))"

text \<open>
  \<open>setSession\<close> and \<open>getSession\<close> use \<open>this.client\<close> directly: without a client the first
  access throws inside the \<open>try\<close>, and the \<open>catch\<close> falls back to the map without
  setting the flag. The hash written is the session object with its defaults filled in.
\<close>

definition setSession ::
  "'v server \<Rightarrow> jsstring \<Rightarrow> 'v \<Rightarrow> int \<Rightarrow> int \<Rightarrow> 'v redis_client \<Rightarrow> 'v redis_client" where
  "setSession srv sid v ttl now s =
     (if fallbackMode s then memSet (SessionKey sid) v ttl now s
      else if \<not> client s then memSet (SessionKey sid) v ttl now s
      else case send srv (HSet (SessionKey sid) v) s of
             (Inl e, s1) \<Rightarrow> memSet (SessionKey sid) v ttl now s1
           | (Inr _, s1) \<Rightarrow>
               (case send srv (Expire (SessionKey sid) ttl) s1 of
                  (Inl e, s2) \<Rightarrow> memSet (SessionKey sid) v ttl now s2
                | (Inr _, s2) \<Rightarrow> s2))"

definition sessionTtl :: int where
  "sessionTtl = 60 * 60 * 24 * 7"

definition getSession ::
  "'v server \<Rightarrow> jsstring \<Rightarrow> int \<Rightarrow> 'v redis_client \<Rightarrow> 'v option \<times> 'v redis_client" where
  "getSession srv sid now s =
     (if fallbackMode s then memGet (SessionKey sid) now s
      else if \<not> client s then memGet (SessionKey sid) now s
      else case send srv (Type (SessionKey sid)) s of
             (Inl e, s1) \<Rightarrow> memGet (SessionKey sid) now s1
           | (Inr (KeyType t), s1) \<Rightarrow>
               if t = js ''hash''
               then (case send srv (HGetAll (SessionKey sid)) s1 of
                       (Inl e, s2) \<Rightarrow> memGet (SessionKey sid) now s2
                     | (Inr (Hash h), s2) \<Rightarrow> (h, s2)
                     | (Inr _, s2) \<Rightarrow> (None, s2))
               else if t = js ''string''
               then (case send srv (Get (SessionKey sid)) s1 of
                       (Inl e, s2) \<Rightarrow> memGet (SessionKey sid) now s2
                     | (Inr (Text (Some parsedData)), s2) \<Rightarrow>
                         (case send srv (Del (SessionKey sid)) s2 of
                            (Inl e, s3) \<Rightarrow> memGet (SessionKey sid) now s3
                          | (Inr _, s3) \<Rightarrow>
                              (Some parsedData, setSession srv sid parsedData sessionTtl now s3))
                     | (Inr _, s2) \<Rightarrow> (None, s2))
               else (None, s1)
           | (Inr _, s1) \<Rightarrow> (None, s1))"

definition memDelete :: "redis_key \<Rightarrow> 'v redis_client \<Rightarrow> 'v redis_client" where
  "memDelete key s = s\<lparr>inMemoryStore := (inMemoryStore s)(key := None)\<rparr>"

text \<open>
  The other operations ask \<open>getClient()\<close>; without a usable client, or on an exception,
  they set \<open>fallbackMode\<close> and call themselves again, which takes the first branch.
\<close>

definition deleteSession :: "'v server \<Rightarrow> jsstring \<Rightarrow> 'v redis_client \<Rightarrow> 'v redis_client" where
  "deleteSession srv sid s =
     (if fallbackMode s then memDelete (SessionKey sid) s
      else if getClient s
      then (case send srv (Del (SessionKey sid)) s of
              (Inl e, s1) \<Rightarrow> memDelete (SessionKey sid) (s1\<lparr>fallbackMode := True\<rparr>)
            | (Inr _, s1) \<Rightarrow> s1)
      else memDelete (SessionKey sid) (s\<lparr>fallbackMode := True\<rparr>))"

subsection \<open>Chat history\<close>

record session_config =
  config_ttl :: int
  chatHistoryLimit :: int

text \<open>
  \<open>config.session\<close>: \<open>parseInt(process.env.X) || dflt\<close>, where \<open>None\<close> is an unset or
  unparsable variable.
\<close>

definition parseIntOr :: "int option \<Rightarrow> int \<Rightarrow> int" where
  "parseIntOr v dflt = (case v of None \<Rightarrow> dflt | Some n \<Rightarrow> if n = 0 then dflt else n)"

definition sessionConfig :: "int option \<Rightarrow> int option \<Rightarrow> session_config" where
  "sessionConfig envTtl envLimit =
     \<lparr>config_ttl = parseIntOr envTtl 3600, chatHistoryLimit = parseIntOr envLimit 50\<rparr>"

text \<open>\<open>list.splice(n)\<close> removes everything from index \<open>n\<close> on; a negative \<open>n\<close> counts from the end.\<close>

definition splice :: "'a list \<Rightarrow> int \<Rightarrow> 'a list" where
  "splice xs n = take (clampIndex n (length xs)) xs"

definition stamp :: "message \<Rightarrow> int \<Rightarrow> message" where
  "stamp m now = m\<lparr>msg_timestamp := now\<rparr>"

definition memAddMessage ::
  "session_config \<Rightarrow> jsstring \<Rightarrow> message \<Rightarrow> int \<Rightarrow> 'v redis_client \<Rightarrow> 'v redis_client" where
  "memAddMessage cfg sid m now s =
     (let list = (case inMemoryLists s (ChatKey sid) of None \<Rightarrow> [] | Some l \<Rightarrow> l);
          list' = stamp m now # list;
          list'' = (if int (length list') > chatHistoryLimit cfg
                    then splice list' (chatHistoryLimit cfg) else list')
      in s\<lparr>inMemoryLists := (inMemoryLists s)(ChatKey sid \<mapsto> list'')\<rparr>)"

definition addMessage ::
  "session_config \<Rightarrow> 'v server \<Rightarrow> jsstring \<Rightarrow> message \<Rightarrow> int \<Rightarrow> 'v redis_client \<Rightarrow> 'v redis_client" where
  "addMessage cfg srv sid m now s =
     (if fallbackMode s then memAddMessage cfg sid m now s
      else if getClient s
      then (case send srv (LPush (ChatKey sid) (stamp m now)) s of
              (Inl e, s1) \<Rightarrow> memAddMessage cfg sid m now (s1\<lparr>fallbackMode := True\<rparr>)
            | (Inr _, s1) \<Rightarrow>
                (case send srv (LTrim (ChatKey sid) 0 (chatHistoryLimit cfg - 1)) s1 of
                   (Inl e, s2) \<Rightarrow> memAddMessage cfg sid m now (s2\<lparr>fallbackMode := True\<rparr>)
                 | (Inr _, s2) \<Rightarrow>
                     (case send srv (Expire (ChatKey sid) (config_ttl cfg)) s2 of
                        (Inl e, s3) \<Rightarrow> memAddMessage cfg sid m now (s3\<lparr>fallbackMode := True\<rparr>)
                      | (Inr _, s3) \<Rightarrow> s3)))
      else memAddMessage cfg sid m now (s\<lparr>fallbackMode := True\<rparr>))"

definition memGetChatHistory :: "jsstring \<Rightarrow> int \<Rightarrow> 'v redis_client \<Rightarrow> message list" where
  "memGetChatHistory sid limit s =
     rev (slice0 (case inMemoryLists s (ChatKey sid) of None \<Rightarrow> [] | Some l \<Rightarrow> l) limit)"

definition getChatHistory ::
  "'v server \<Rightarrow> jsstring \<Rightarrow> int \<Rightarrow> 'v redis_client \<Rightarrow> message list \<times> 'v redis_client" where
  "getChatHistory srv sid limit s =
     (if fallbackMode s then (memGetChatHistory sid limit s, s)
      else if getClient s
      then (case send srv (LRange (ChatKey sid) 0 (limit - 1)) s of
              (Inr (Items messages), s1) \<Rightarrow> (rev messages, s1)
            | (_, s1) \<Rightarrow> (memGetChatHistory sid limit (s1\<lparr>fallbackMode := True\<rparr>),
                          s1\<lparr>fallbackMode := True\<rparr>))
      else (memGetChatHistory sid limit (s\<lparr>fallbackMode := True\<rparr>), s\<lparr>fallbackMode := True\<rparr>))"

definition memClearChatHistory :: "jsstring \<Rightarrow> 'v redis_client \<Rightarrow> 'v redis_client" where
  "memClearChatHistory sid s = s\<lparr>inMemoryLists := (inMemoryLists s)(ChatKey sid := None)\<rparr>"

definition clearChatHistory :: "'v server \<Rightarrow> jsstring \<Rightarrow> 'v redis_client \<Rightarrow> 'v redis_client" where
  "clearChatHistory srv sid s =
     (if fallbackMode s then memClearChatHistory sid s
      else if getClient s
      then (case send srv (Del (ChatKey sid)) s of
              (Inl e, s1) \<Rightarrow> memClearChatHistory sid (s1\<lparr>fallbackMode := True\<rparr>)
            | (Inr _, s1) \<Rightarrow> s1)
      else memClearChatHistory sid (s\<lparr>fallbackMode := True\<rparr>))"

subsection \<open>The query cache\<close>

definition cacheQueryResult ::
  "'v server \<Rightarrow> jsstring \<Rightarrow> 'v \<Rightarrow> int \<Rightarrow> int \<Rightarrow> 'v redis_client \<Rightarrow> 'v redis_client" where
  "cacheQueryResult srv q result ttl now s =
     (if fallbackMode s then memSet (queryKey q) result ttl now s
      else if getClient s
      then (case send srv (SetEx (queryKey q) ttl result) s of
              (Inl e, s1) \<Rightarrow> memSet (queryKey q) result ttl now (s1\<lparr>fallbackMode := True\<rparr>)
            | (Inr _, s1) \<Rightarrow> s1)
      else memSet (queryKey q) result ttl now (s\<lparr>fallbackMode := True\<rparr>))"

definition getCachedQueryResult ::
  "'v server \<Rightarrow> jsstring \<Rightarrow> int \<Rightarrow> 'v redis_client \<Rightarrow> 'v option \<times> 'v redis_client" where
  "getCachedQueryResult srv q now s =
     (if fallbackMode s then memGet (queryKey q) now s
      else if getClient s
      then (case send srv (Get (queryKey q)) s of
              (Inr (Text r), s1) \<Rightarrow> (r, s1)
            | (_, s1) \<Rightarrow> memGet (queryKey q) now (s1\<lparr>fallbackMode := True\<rparr>))
      else memGet (queryKey q) now (s\<lparr>fallbackMode := True\<rparr>))"

section \<open>Observations on a run and test doubles\<close>

text \<open>The URL a search result carries, if its payload has one.\<close>

definition resultUrl :: "search_result \<Rightarrow> jsstring option" where
  "resultUrl r = (case result_payload r of None \<Rightarrow> None | Some p \<Rightarrow> articleUrl p)"

text \<open>A source that was built from one of the results: same URL, non-empty, same score.\<close>

definition fromResult :: "search_result list \<Rightarrow> source_ref \<Rightarrow> bool" where
  "fromResult rs s = (\<exists>r \<in> set rs. resultUrl r = Some (url s) \<and> url s \<noteq> [] \<and>
      relevanceScore s = score r)"

definition isFilteredSearch :: "call \<Rightarrow> bool" where
  "isFilteredSearch c = (case c of SearchSimilar _ _ (Some _) \<Rightarrow> True | _ \<Rightarrow> False)"

definition isSearch :: "call \<Rightarrow> bool" where
  "isSearch c = (case c of SearchSimilar _ _ _ \<Rightarrow> True | _ \<Rightarrow> False)"

text \<open>
  The exceptions thrown by the calls of a trace, in order, leaving out the date-filtered
  search, whose exception \<open>processQuery\<close> answers with the unfiltered search.
\<close>

definition failures :: "trace \<Rightarrow> error list" where
  "failures tr = List.map_filter (\<lambda>(c, r). if isFilteredSearch c then None else r) tr"

text \<open>The searches of a trace, in order.\<close>

definition searches :: "trace \<Rightarrow> call list" where
  "searches tr = filter isSearch (map fst tr)"

text \<open>
  A step that starts with trace \<open>tr\<close> \<^emph>\<open>extends\<close> it when it only appends calls and the
  appended calls threw exactly the exception the step ends with, if any; it is \<^emph>\<open>quiet\<close>
  when it appends no search.
\<close>

definition extends :: "trace \<Rightarrow> (error + 'a) \<times> trace \<Rightarrow> bool" where
  "extends tr r = (\<exists>ext. snd r = tr @ ext \<and>
      failures ext = (case fst r of Inl e \<Rightarrow> [e] | Inr _ \<Rightarrow> []))"

definition quiet :: "trace \<Rightarrow> (error + 'a) \<times> trace \<Rightarrow> bool" where
  "quiet tr r = (\<exists>ext. snd r = tr @ ext \<and> searches ext = [])"

text \<open>
  Collaborators for concrete runs: the cache is empty, the embedding and the search answer
  as given, history is empty, generation and persistence succeed.
\<close>

definition stubEnv ::
  "(error + real list) \<Rightarrow> (search_filter option \<Rightarrow> error + search_result list) \<Rightarrow> env" where
  "stubEnv emb search =
     \<lparr>redis_getCachedQueryResult = (\<lambda>h q. Inr None),
      embedding_generateEmbedding = (\<lambda>h q. emb),
      vector_searchSimilar = (\<lambda>h v n f. search f),
      redis_getChatHistory = (\<lambda>h sid n. Inr []),
      gemini_generateResponse = (\<lambda>h q ctx hist.
         Inr \<lparr>ai_text = js ''summary'', ai_model = js ''fallback-enhanced'', ai_tokensUsed = 0\<rparr>),
      redis_cacheQueryResult = (\<lambda>h q r. Inr ()),
      redis_addMessage = (\<lambda>h sid m. Inr ())\<rparr>"

definition barePayloadResult :: search_result where
  "barePayloadResult = \<lparr>result_id = 1, score = 9 / 10, result_payload = None\<rparr>"

definition linkedResult :: "nat \<Rightarrow> real \<Rightarrow> jsstring \<Rightarrow> search_result" where
  "linkedResult i sc u =
     \<lparr>result_id = i, score = sc,
      result_payload = Some \<lparr>payload_text = None, articleId = None, articleTitle = None,
                              articleUrl = Some u, source = None, publishDate = None,
                              payload_chunkIndex = None, payload_totalChunks = None\<rparr>\<rparr>"

text \<open>A vector store as its constructor leaves it, for the configured dimension.\<close>

definition newVectorStore :: "int \<Rightarrow> vector_store" where
  "newVectorStore dimension =
     \<lparr>hasClient = False, store_isInitialized = False, vectorSize = dimension, inMemoryVectors = [],
      upserts = []\<rparr>"

definition textPayload :: "jsstring \<Rightarrow> jsstring \<Rightarrow> payload" where
  "textPayload aid t =
     \<lparr>payload_text = Some t, articleId = Some aid, articleTitle = None, articleUrl = None,
      source = None, publishDate = None, payload_chunkIndex = Some 0,
      payload_totalChunks = Some 1\<rparr>"

definition shortArticle :: article where
  "shortArticle = \<lparr>article_id = js ''a1'', article_title = js ''Title'',
                    article_description = js ''Summary'', article_content = js ''Short body.''\<rparr>"

text \<open>
  An operation of the key-value client ran \<^emph>\<open>offline\<close> when it left the flag set and sent
  no command to the networked client.
\<close>

definition offline :: "'v redis_client \<Rightarrow> 'v redis_client \<Rightarrow> bool" where
  "offline s s' = (fallbackMode s' \<and> clientCalls s' = clientCalls s)"

text \<open>The in-process chat log of a session, newest message first.\<close>

definition chatLog :: "'v redis_client \<Rightarrow> jsstring \<Rightarrow> message list" where
  "chatLog s sid = (case inMemoryLists s (ChatKey sid) of None \<Rightarrow> [] | Some l \<Rightarrow> l)"

definition bounded :: "session_config \<Rightarrow> 'v redis_client \<Rightarrow> bool" where
  "bounded cfg s = (\<forall>sid. int (length (chatLog s sid)) \<le> chatHistoryLimit cfg)"

text \<open>A sequence of \<open>addMessage\<close> calls for one session, each with the time of the call.\<close>

definition addMessages ::
  "session_config \<Rightarrow> 'v server \<Rightarrow> jsstring \<Rightarrow> (message \<times> int) list \<Rightarrow> 'v redis_client \<Rightarrow> 'v redis_client" where
  "addMessages cfg srv sid ms s = foldl (\<lambda>st (m, now). addMessage cfg srv sid m now st) s ms"

definition stamped :: "(message \<times> int) list \<Rightarrow> message list" where
  "stamped ms = map (\<lambda>(m, now). stamp m now) ms"

text \<open>
  Concrete clients and servers: a server that accepts every command, a client whose
  availability probe failed, and a client that connected.
\<close>

definition okServer :: "'v server" where
  "okServer = (\<lambda>h c. Inr Done)"

definition downClient :: "nat redis_client" where
  "downClient = connect False [] True newRedisClient"

definition liveClient :: "nat redis_client" where
  "liveClient = connect True [ConnectEvent] True newRedisClient"

definition numbered :: "nat \<Rightarrow> message" where
  "numbered n = \<lparr>role = js ''user'', content = decimal n, msg_timestamp = 0, msg_sources = None,
             msg_contextUsed = None, msg_error = False\<rparr>"

text \<open>
  A server that keeps what it is sent, for runs with a networked client: the list under a
  key after a history of commands, as \<open>LPUSH\<close>, \<open>LTRIM\<close> and \<open>DEL\<close> leave it, and the
  string under a key as \<open>SETEX\<close> and \<open>DEL\<close> leave it. \<open>lrange\<close> is the inclusive range of
  \<open>LRANGE\<close> and \<open>LTRIM\<close>, where a negative index counts from the end. Nothing expires
  within a run.
\<close>

definition lrange :: "'a list \<Rightarrow> int \<Rightarrow> int \<Rightarrow> 'a list" where
  "lrange l a b =
     (let n = int (length l);
          start = (if a < 0 then max (n + a) 0 else a);
          stop = (if b < 0 then n + b else min b (n - 1))
      in if start > stop then [] else take (nat (stop - start + 1)) (drop (nat start) l))"

definition listStep :: "redis_key \<Rightarrow> message list \<Rightarrow> 'v command \<Rightarrow> message list" where
  "listStep key l c =
     (case c of
        LPush k m \<Rightarrow> if k = key then m # l else l
      | LTrim k a b \<Rightarrow> if k = key then lrange l a b else l
      | Del k \<Rightarrow> if k = key then [] else l
      | _ \<Rightarrow> l)"

definition listAfter :: "'v command list \<Rightarrow> redis_key \<Rightarrow> message list" where
  "listAfter h key = foldl (listStep key) [] h"

definition stringStep :: "redis_key \<Rightarrow> 'v option \<Rightarrow> 'v command \<Rightarrow> 'v option" where
  "stringStep key x c =
     (case c of
        SetEx k ttl v \<Rightarrow> if k = key then Some v else x
      | Del k \<Rightarrow> if k = key then None else x
      | _ \<Rightarrow> x)"

definition stringAfter :: "'v command list \<Rightarrow> redis_key \<Rightarrow> 'v option" where
  "stringAfter h key = foldl (stringStep key) None h"

definition storeServer :: "'v server" where
  "storeServer h c =
     (case c of
        LRange k a b \<Rightarrow> Inr (Items (lrange (listAfter h k) a b))
      | Get k \<Rightarrow> Inr (Text (stringAfter h k))
      | _ \<Rightarrow> Inr Done)"

text \<open>
  What the claims about the chat log need of a server: it answers \<open>LRANGE\<close> from the
  list it was sent and accepts every other command.
\<close>

definition keepsLists :: "'v server \<Rightarrow> bool" where
  "keepsLists srv =
     (\<forall>h c. case c of
              LRange k a b \<Rightarrow> srv h c = Inr (Items (lrange (listAfter h k) a b))
            | _ \<Rightarrow> (\<exists>r. srv h c = Inr r))"


text \<open>Eleven numbered messages, each with the time of its call.\<close>

definition elevenNotes :: "(message \<times> int) list" where
  "elevenNotes =
     [(numbered 1, 1), (numbered 2, 2), (numbered 3, 3), (numbered 4, 4), (numbered 5, 5),
      (numbered 6, 6), (numbered 7, 7), (numbered 8, 8), (numbered 9, 9), (numbered 10, 10),
      (numbered 11, 11)]"

section \<open>Properties of the query pipeline\<close>

subsection \<open>Sources\<close>

lemma fromResult_Cons: "fromResult rs s \<Longrightarrow> fromResult (r # rs) s"
  by (auto simp: fromResult_def)

lemma loop_inv:
  "seen = set (map url acc) \<Longrightarrow> distinct (map url acc) \<Longrightarrow>
   \<exists>ys. extractSources_loop rs acc seen = acc @ ys \<and> distinct (map url (acc @ ys)) \<and>
        subseq (map url ys) (List.map_filter resultUrl rs) \<and> (\<forall>s \<in> set ys. fromResult rs s)"
proof (induction rs arbitrary: acc seen)
  case Nil
  then show ?case by (simp add: List.map_filter_simps)
next
  case (Cons r rs)
  show ?case
  proof (cases "resultUrl r")
    case None
    from Cons.IH[OF Cons.prems] obtain ys where
      ys: "extractSources_loop rs acc seen = acc @ ys" "distinct (map url (acc @ ys))"
          "subseq (map url ys) (List.map_filter resultUrl rs)" "\<forall>s \<in> set ys. fromResult rs s"
      by blast
    have "extractSources_loop (r # rs) acc seen = acc @ ys"
      using None ys(1) by (auto simp: resultUrl_def split: option.splits)
    moreover have "subseq (map url ys) (List.map_filter resultUrl (r # rs))"
      using ys(3) None by (simp add: List.map_filter_simps)
    ultimately show ?thesis using ys(2,4) fromResult_Cons by blast
  next
    case (Some u)
    then obtain p where p: "result_payload r = Some p" "articleUrl p = Some u"
      by (auto simp: resultUrl_def split: option.splits)
    show ?thesis
    proof (cases "truthy u \<and> u \<notin> seen")
      case True
      define s where "s = \<lparr>title = orElse (articleTitle p) (js ''Untitled Article''),
                                   url = u,
                                   source_name = orElse (source p) (js ''Unknown Source''),
                                   source_publishDate = publishDate p,
                                   relevanceScore = score r\<rparr>"
      have us: "url s = u" "relevanceScore s = score r" by (simp_all add: s_def)
      have seen': "insert u seen = set (map url (acc @ [s]))" using Cons.prems(1) us by simp
      have dist': "distinct (map url (acc @ [s]))" using Cons.prems True us by simp
      from Cons.IH[OF seen' dist'] obtain ys where
        ys: "extractSources_loop rs (acc @ [s]) (insert u seen) = (acc @ [s]) @ ys"
            "distinct (map url ((acc @ [s]) @ ys))"
            "subseq (map url ys) (List.map_filter resultUrl rs)" "\<forall>s \<in> set ys. fromResult rs s"
        by blast
      have 1: "extractSources_loop (r # rs) acc seen = acc @ (s # ys)"
        using True p ys(1) by (simp add: s_def)
      have 2: "subseq (map url (s # ys)) (List.map_filter resultUrl (r # rs))"
        using ys(3) Some us by (simp add: List.map_filter_simps)
      have 3: "fromResult (r # rs) s"
        using Some us True by (auto simp: fromResult_def truthy_def)
      have 4: "\<forall>t \<in> set (s # ys). fromResult (r # rs) t"
        using 3 ys(4) fromResult_Cons by auto
      have 5: "distinct (map url (acc @ (s # ys)))" using ys(2) by simp
      show ?thesis using 1 2 4 5 by blast
    next
      case False
      from Cons.IH[OF Cons.prems] obtain ys where
        ys: "extractSources_loop rs acc seen = acc @ ys" "distinct (map url (acc @ ys))"
            "subseq (map url ys) (List.map_filter resultUrl rs)" "\<forall>s \<in> set ys. fromResult rs s"
        by blast
      have "extractSources_loop (r # rs) acc seen = acc @ ys"
        using False p ys(1) by auto
      moreover have "subseq (map url ys) (List.map_filter resultUrl (r # rs))"
        using ys(3) Some by (simp add: List.map_filter_simps list_emb_Cons)
      ultimately show ?thesis using ys(2,4) fromResult_Cons by blast
    qed
  qed
qed

lemma slice0_5: "slice0 xs 5 = take 5 xs" by (simp add: slice0_def)

lemma extract_props:
  "length (extractSources rs) \<le> 5 \<and>
  distinct (map url (extractSources rs)) \<and>
  subseq (map url (extractSources rs)) (List.map_filter resultUrl rs) \<and>
  (\<forall>s \<in> set (extractSources rs). fromResult rs s)"
proof -
  from loop_inv[of "{}" "[]" rs] obtain ys where
    ys: "extractSources_loop rs [] {} = ys" "distinct (map url ys)"
        "subseq (map url ys) (List.map_filter resultUrl rs)" "\<forall>s \<in> set ys. fromResult rs s"
    by auto
  have e: "extractSources rs = take 5 ys" by (simp add: extractSources_def slice0_5 ys(1))
  have "subseq (map url (take 5 ys)) (map url ys)"
    by (intro subseq_map prefix_imp_subseq take_is_prefix)
  then have "subseq (map url (take 5 ys)) (List.map_filter resultUrl rs)"
    using ys(3) subseq_order.trans by blast
  moreover have "distinct (map url (take 5 ys))" using ys(2) distinct_take[of "map url ys" 5] by (simp add: take_map)
  moreover have "\<forall>s \<in> set (take 5 ys). fromResult rs s" using ys(4) by (meson in_set_takeD)
  ultimately show ?thesis unfolding e by simp
qed

subsection \<open>Traces of the try block\<close>

lemma failures_append: "failures (a @ b) = failures a @ failures b"
  by (simp add: failures_def List.map_filter_def)

lemma failures_Nil: "failures [] = []"
  by (simp add: failures_def List.map_filter_def)

lemma extends_pure: "extends tr (Inr x, tr)"
  by (simp add: extends_def failures_Nil)

lemma extends_invoke: "\<not> isFilteredSearch c \<Longrightarrow> extends tr (invoke f c tr)"
  by (auto simp: extends_def invoke_def Let_def failures_def List.map_filter_def split: sum.splits)

lemma extends_andThen:
  assumes "extends tr r" and "\<And>x tr'. extends tr' (k x tr')"
  shows "extends tr (andThen r k)"
proof (cases r)
  case (Pair res tr1)
  show ?thesis
  proof (cases res)
    case (Inl e)
    then show ?thesis using assms(1) Pair by (auto simp: andThen_def extends_def)
  next
    case (Inr x)
    from assms(1) Pair Inr obtain e1 where e1: "tr1 = tr @ e1" "failures e1 = []"
      by (auto simp: extends_def)
    from assms(2)[of tr1 x] obtain e2 where e2: "snd (k x tr1) = tr1 @ e2"
       "failures e2 = (case fst (k x tr1) of Inl e \<Rightarrow> [e] | Inr _ \<Rightarrow> [])"
      by (auto simp: extends_def)
    have "snd (andThen r k) = tr @ (e1 @ e2)" using Pair Inr e1 e2 by (simp add: andThen_def)
    moreover have "failures (e1 @ e2) = (case fst (andThen r k) of Inl e \<Rightarrow> [e] | Inr _ \<Rightarrow> [])"
      using Pair Inr e1 e2 by (simp add: andThen_def failures_append)
    ultimately show ?thesis unfolding extends_def by blast
  qed
qed

lemma extends_retrieve: "extends tr (retrieve ev q emb opts now tr)"
proof (cases "isRecentNewsQuery q")
  case False
  then show ?thesis by (simp add: retrieve_def extends_invoke isFilteredSearch_def)
next
  case True
  let ?f = "vector_searchSimilar ev (map fst tr) emb (maxResults opts * 2) (Some (PublishDateGte (threeDaysAgo now)))"
  show ?thesis
  proof (cases ?f)
    case (Inr rs)
    then show ?thesis using True
      by (simp add: retrieve_def invoke_def extends_def failures_def List.map_filter_def isFilteredSearch_def)
  next
    case (Inl e)
    then show ?thesis using True
      by (auto simp add: retrieve_def invoke_def extends_def failures_def List.map_filter_def isFilteredSearch_def Let_def split: sum.splits)
  qed
qed

lemma extends_persist: "extends tr (persist ev q sid opts now rel ai tr)"
  unfolding persist_def Let_def
  by (intro extends_andThen extends_invoke extends_pure) (auto simp: isFilteredSearch_def extends_pure extends_invoke)

lemma extends_tryBlock: "extends [] (tryBlock ev q sid opts now)"
  unfolding tryBlock_def
  apply (rule extends_andThen)
   apply (simp add: extends_pure extends_invoke isFilteredSearch_def)
  subgoal for c tr
    apply (cases c)
     apply simp
     apply (intro extends_andThen extends_invoke extends_retrieve extends_persist)
       apply (simp_all add: isFilteredSearch_def extends_pure extends_invoke extends_persist)
    done
  done

lemma extends_catchBlock:
  "\<exists>ext. snd (catchBlock ev q sid now e tr) = tr @ ext \<and> fst (catchBlock ev q sid now e tr) = Inr (fallbackResponse q sid now e)"
  by (auto simp: catchBlock_def andThen_def invoke_def Let_def split: sum.splits prod.splits)

lemma andThen_Inr:
  "fst (andThen r k) = Inr y \<Longrightarrow> \<exists>x tr. r = (Inr x, tr) \<and> fst (k x tr) = Inr y"
  by (cases r) (auto simp: andThen_def split: sum.splits)

lemma persist_result:
  assumes "fst (persist ev q sid opts now rel ai tr) = Inr r"
  shows "response_error r = None \<and> \<not> cached r \<and> contextUsed r = length rel \<and> sources r = extractSources rel \<and> model r = ai_model ai"
  using assms unfolding persist_def Let_def
  by (auto dest!: andThen_Inr)

lemma tryBlock_miss_result:
  assumes "fst (tryBlock ev q sid opts now) = Inr r"
    and "useCache opts \<longrightarrow> redis_getCachedQueryResult ev [] q = Inr None"
  shows "response_error r = None \<and> \<not> cached r"
proof -
  from assms(1) obtain c tr where
    c: "(if useCache opts
              then invoke (\<lambda>h. redis_getCachedQueryResult ev h q) (GetCachedQueryResult q) []
              else (Inr None, [])) = (Inr c, tr)"
    and k: "fst (case c of
            Some c \<Rightarrow> (Inr (c\<lparr>cached := True, timestamp := now\<rparr>), tr)
          | None \<Rightarrow>
     andThen (invoke (\<lambda>h. embedding_generateEmbedding ev h q) (GenerateEmbedding q) tr)
       (\<lambda>queryEmbedding tr.
     andThen (retrieve ev q queryEmbedding opts now tr)
       (\<lambda>searchResults tr.
     andThen (if includeHistory opts
              then invoke (\<lambda>h. redis_getChatHistory ev h sid 10) (GetChatHistory sid 10) tr
              else (Inr [], tr))
       (\<lambda>conversationHistory tr.
     andThen (invoke (\<lambda>h. gemini_generateResponse ev h q (relevant opts searchResults)
                                conversationHistory)
                     (GenerateResponse q (relevant opts searchResults) conversationHistory) tr)
       (\<lambda>aiResponse tr.
          persist ev q sid opts now (relevant opts searchResults) aiResponse tr))))) = Inr r"
    unfolding tryBlock_def by (drule_tac andThen_Inr) blast
  have "c = None" using c assms(2) by (auto simp: invoke_def Let_def split: if_splits)
  with k show ?thesis
    by (auto dest!: andThen_Inr dest: persist_result)
qed

subsection \<open>Searches of a run\<close>

lemma searches_append: "searches (a @ b) = searches a @ searches b"
  by (simp add: searches_def)

lemma quiet_pure: "quiet tr (Inr x, tr)"
  by (simp add: quiet_def searches_def)

lemma quiet_invoke: "\<not> isSearch c \<Longrightarrow> quiet tr (invoke f c tr)"
  by (simp add: quiet_def invoke_def Let_def searches_def)

lemma quiet_andThen:
  assumes "quiet tr r" and "\<And>x tr'. quiet tr' (k x tr')"
  shows "quiet tr (andThen r k)"
proof (cases r)
  case (Pair res tr1)
  show ?thesis
  proof (cases res)
    case (Inl e)
    then show ?thesis using assms(1) Pair by (auto simp: andThen_def quiet_def)
  next
    case (Inr x)
    from assms(1) Pair obtain e1 where e1: "tr1 = tr @ e1" "searches e1 = []"
      by (auto simp: quiet_def)
    from assms(2)[of tr1 x] obtain e2 where e2: "snd (k x tr1) = tr1 @ e2" "searches e2 = []"
      by (auto simp: quiet_def)
    have "snd (andThen r k) = tr @ (e1 @ e2)" using Pair Inr e1 e2 by (simp add: andThen_def)
    moreover have "searches (e1 @ e2) = []" using e1 e2 by (simp add: searches_append)
    ultimately show ?thesis unfolding quiet_def by blast
  qed
qed

lemma quiet_persist: "quiet tr (persist ev q sid opts now rel ai tr)"
  unfolding persist_def Let_def
  by (intro quiet_andThen quiet_invoke quiet_pure) (auto simp: isSearch_def quiet_pure quiet_invoke)

lemma quiet_catchBlock: "quiet tr (catchBlock ev q sid now e tr)"
  by (auto simp: catchBlock_def andThen_def invoke_def Let_def quiet_def searches_def isSearch_def
      split: sum.splits prod.splits)

lemma quiet_rest:
  "quiet tr (andThen (if includeHistory opts
              then invoke (\<lambda>h. redis_getChatHistory ev h sid 10) (GetChatHistory sid 10) tr
              else (Inr [], tr))
       (\<lambda>conversationHistory tr.
     andThen (invoke (\<lambda>h. gemini_generateResponse ev h q rel conversationHistory)
                     (GenerateResponse q rel conversationHistory) tr)
       (\<lambda>aiResponse tr.
          persist ev q sid opts now rel aiResponse tr)))"
  by (intro quiet_andThen quiet_invoke quiet_persist) (auto simp: isSearch_def quiet_pure quiet_invoke)

lemma retrieve_searches:
  "\<exists>ext. snd (retrieve ev q emb opts now tr) = tr @ ext \<and>
     searches ext =
       (if isRecentNewsQuery q
        then (case vector_searchSimilar ev (map fst tr) emb (maxResults opts * 2)
                     (Some (PublishDateGte (threeDaysAgo now))) of
                Inr _ \<Rightarrow> [SearchSimilar emb (maxResults opts * 2) (Some (PublishDateGte (threeDaysAgo now)))]
              | Inl _ \<Rightarrow> [SearchSimilar emb (maxResults opts * 2) (Some (PublishDateGte (threeDaysAgo now))),
                          SearchSimilar emb (maxResults opts * 2) None])
        else [SearchSimilar emb (maxResults opts * 2) None])"
  by (auto simp: retrieve_def invoke_def Let_def searches_def isSearch_def split: sum.splits)

lemma andThen_trace:
  assumes "snd r = tr @ e1" and "\<And>x tr'. quiet tr' (k x tr')"
  shows "\<exists>e2. snd (andThen r k) = tr @ e1 @ e2 \<and> searches e2 = []"
proof (cases r)
  case (Pair res tr1)
  show ?thesis
  proof (cases res)
    case (Inl e)
    then show ?thesis using assms(1) Pair by (auto simp: andThen_def searches_def)
  next
    case (Inr x)
    from assms(2)[of tr1 x] obtain e2 where e2: "snd (k x tr1) = tr1 @ e2" "searches e2 = []"
      by (auto simp: quiet_def)
    then show ?thesis using assms(1) Pair Inr by (auto simp: andThen_def)
  qed
qed

lemma destructure_not_null:
  "arg \<noteq> OptionsNull \<Longrightarrow> \<exists>opts. destructureOptions topKResults arg = Inr opts"
  by (cases arg) (simp_all add: destructureOptions_def)

lemma processQuery_null_options:
  "fst (processQuery True topKResults ev q sid OptionsNull now) = Inl TypeError"
  by (simp add: processQuery_def destructureOptions_def)

lemma processQuery_trace:
  assumes opt: "destructureOptions topKResults arg = Inr opts"
  shows "\<exists>ext. snd (processQuery True topKResults ev q sid arg now) =
                 snd (tryBlock ev q sid opts now) @ ext \<and> searches ext = []
      \<and> failures (snd (processQuery True topKResults ev q sid arg now)) =
          failures (snd (tryBlock ev q sid opts now)) @ failures ext"
proof (cases "tryBlock ev q sid opts now")
  case (Pair res tr)
  show ?thesis
  proof (cases res)
    case (Inr r)
    then show ?thesis using Pair by (simp add: processQuery_def opt searches_def failures_Nil)
  next
    case (Inl e)
    from quiet_catchBlock[of tr ev q sid now e] obtain ext where
      "snd (catchBlock ev q sid now e tr) = tr @ ext" "searches ext = []" by (auto simp: quiet_def)
    then show ?thesis using Pair Inl by (simp add: processQuery_def opt failures_append)
  qed
qed

lemma tryBlock_searches:
  assumes miss: "useCache opts \<longrightarrow> redis_getCachedQueryResult ev [] q = Inr None"
    and emb: "embedding_generateEmbedding ev (if useCache opts then [GetCachedQueryResult q] else []) q = Inr emb"
  shows "searches (snd (tryBlock ev q sid opts now)) =
       (if isRecentNewsQuery q
        then (case vector_searchSimilar ev ((if useCache opts then [GetCachedQueryResult q] else []) @ [GenerateEmbedding q]) emb (maxResults opts * 2)
                     (Some (PublishDateGte (threeDaysAgo now))) of
                Inr _ \<Rightarrow> [SearchSimilar emb (maxResults opts * 2) (Some (PublishDateGte (threeDaysAgo now)))]
              | Inl _ \<Rightarrow> [SearchSimilar emb (maxResults opts * 2) (Some (PublishDateGte (threeDaysAgo now))),
                          SearchSimilar emb (maxResults opts * 2) None])
        else [SearchSimilar emb (maxResults opts * 2) None])"
proof -
  define h0 where "h0 = (if useCache opts then [GetCachedQueryResult q] else [])"
  define t0 :: trace where "t0 = map (\<lambda>c. (c, None)) h0"
  define t1 :: trace where "t1 = t0 @ [(GenerateEmbedding q, None)]"
  have h1: "map fst t1 = h0 @ [GenerateEmbedding q]" by (simp add: t1_def t0_def comp_def)
  have s1: "searches t1 = []" by (simp add: t1_def t0_def h0_def searches_def isSearch_def)
  have tb: "tryBlock ev q sid opts now =
     andThen (retrieve ev q emb opts now t1)
       (\<lambda>searchResults tr.
     andThen (if includeHistory opts
              then invoke (\<lambda>h. redis_getChatHistory ev h sid 10) (GetChatHistory sid 10) tr
              else (Inr [], tr))
       (\<lambda>conversationHistory tr.
     andThen (invoke (\<lambda>h. gemini_generateResponse ev h q (relevant opts searchResults)
                                conversationHistory)
                     (GenerateResponse q (relevant opts searchResults) conversationHistory) tr)
       (\<lambda>aiResponse tr.
          persist ev q sid opts now (relevant opts searchResults) aiResponse tr)))"
    using miss emb
    by (auto simp: tryBlock_def andThen_def invoke_def Let_def t1_def t0_def h0_def)
  from retrieve_searches[of ev q emb opts now t1] obtain e1 where
    e1: "snd (retrieve ev q emb opts now t1) = t1 @ e1"
     "searches e1 = (if isRecentNewsQuery q
        then (case vector_searchSimilar ev (map fst t1) emb (maxResults opts * 2)
                     (Some (PublishDateGte (threeDaysAgo now))) of
                Inr _ \<Rightarrow> [SearchSimilar emb (maxResults opts * 2) (Some (PublishDateGte (threeDaysAgo now)))]
              | Inl _ \<Rightarrow> [SearchSimilar emb (maxResults opts * 2) (Some (PublishDateGte (threeDaysAgo now))),
                          SearchSimilar emb (maxResults opts * 2) None])
        else [SearchSimilar emb (maxResults opts * 2) None])" by blast
  from andThen_trace[OF e1(1), of "(\<lambda>searchResults tr.
     andThen (if includeHistory opts
              then invoke (\<lambda>h. redis_getChatHistory ev h sid 10) (GetChatHistory sid 10) tr
              else (Inr [], tr))
       (\<lambda>conversationHistory tr.
     andThen (invoke (\<lambda>h. gemini_generateResponse ev h q (relevant opts searchResults)
                                conversationHistory)
                     (GenerateResponse q (relevant opts searchResults) conversationHistory) tr)
       (\<lambda>aiResponse tr.
          persist ev q sid opts now (relevant opts searchResults) aiResponse tr)))"] quiet_rest
  obtain e2 where e2: "snd (tryBlock ev q sid opts now) = t1 @ e1 @ e2" "searches e2 = []"
    unfolding tb by blast
  show ?thesis unfolding e2(1) using s1 e1(2) e2(2) h1 by (simp add: searches_append h0_def)
qed

subsection \<open>The claims about processQuery\<close>

text \<open>
  Claim C1, as the code has it. On an initialized service \<open>processQuery\<close> returns a
  response object for every query, session id, behaviour of its collaborators and options
  argument that is an object or left out; it does not throw. Whenever a call other than the
  date-filtered search threw, the result is the fallback response built from the first
  such exception: no sources, \<open>contextUsed\<close> 0, model \<open>fallback\<close> and a non-empty apology.
\<close>

theorem processQuery_returns:
  assumes "isInitialized" and "arg \<noteq> OptionsNull"
  shows "\<exists>r. fst (processQuery isInitialized topKResults ev q sid arg now) = Inr r \<and>
     (\<forall>e es. failures (snd (processQuery isInitialized topKResults ev q sid arg now)) = e # es \<longrightarrow>
        r = fallbackResponse q sid now e \<and> sources r = [] \<and> contextUsed r = 0 \<and>
        model r = js ''fallback'' \<and> response_text r \<noteq> [])"
proof -
  from destructure_not_null[OF assms(2)] obtain opts where
    opt: "destructureOptions topKResults arg = Inr opts" by blast
  show ?thesis
  proof (cases "tryBlock ev q sid opts now")
    case (Pair res tr)
    from extends_tryBlock[of ev q sid opts now] Pair
    have f: "failures tr = (case res of Inl e \<Rightarrow> [e] | Inr _ \<Rightarrow> [])"
      by (simp add: extends_def)
    show ?thesis
    proof (cases res)
      case (Inr r)
      then show ?thesis using Pair f assms(1) by (simp add: processQuery_def opt)
    next
      case (Inl e)
      from extends_catchBlock[of ev q sid now e tr] obtain ext where
        ext: "snd (catchBlock ev q sid now e tr) = tr @ ext"
             "fst (catchBlock ev q sid now e tr) = Inr (fallbackResponse q sid now e)" by blast
      have "failures (tr @ ext) = e # failures ext" using f Inl by (simp add: failures_append)
      then show ?thesis using Pair Inl assms(1) ext
        by (simp add: processQuery_def opt fallbackResponse_def apology_def)
    qed
  qed
qed

theorem processQuery_returns_witness:
  "fst (processQuery True 5 (stubEnv (Inl TextMustBeNonEmptyString) (\<lambda>f. Inr [])) [] (js ''s1'')
          OptionsOmitted 0) = Inr (fallbackResponse [] (js ''s1'') 0 TextMustBeNonEmptyString)
   \<and> failures (snd (processQuery True 5 (stubEnv (Inl TextMustBeNonEmptyString) (\<lambda>f. Inr [])) []
          (js ''s1'') OptionsOmitted 0)) = [TextMustBeNonEmptyString]"
proof -
  have f: "failures (snd (processQuery True 5 (stubEnv (Inl TextMustBeNonEmptyString) (\<lambda>f. Inr [])) []
          (js ''s1'') OptionsOmitted 0)) = [TextMustBeNonEmptyString]"
    by (simp add: processQuery_def destructureOptions_def tryBlock_def catchBlock_def andThen_def
        invoke_def stubEnv_def default_options_def Let_def failures_def List.map_filter_def
        isFilteredSearch_def)
  from processQuery_returns[where isInitialized = True and topKResults = 5 and
      ev = "stubEnv (Inl TextMustBeNonEmptyString) (\<lambda>f. Inr [])" and q = "[]" and
      sid = "js ''s1''" and arg = OptionsOmitted and now = 0] f
  show ?thesis by auto
qed

text \<open>
  Before \<open>initialize\<close> has run, the guard ahead of the \<open>try\<close> block throws; and on an
  initialized service the options \<open>null\<close> make the destructuring ahead of the \<open>try\<close> block
  throw. The claim as stated, for every call, does not hold.
\<close>

theorem processQuery_uninitialized_counterexample:
  "fst (processQuery False 5 (stubEnv (Inr []) (\<lambda>f. Inr [])) (js ''hello'') (js ''s1'')
          OptionsOmitted 0) = Inl RagNotInitialized \<and>
   fst (processQuery True 5 (stubEnv (Inr []) (\<lambda>f. Inr [])) (js ''hello'') (js ''s1'')
          OptionsNull 0) = Inl TypeError"
  by (simp add: processQuery_def destructureOptions_def)

text \<open>
  Claim C9. When the cache does not answer and the embedding is produced, a query whose
  lower-cased text contains one of the four keywords first searches \<open>maxResults * 2\<close>
  candidates with the filter \<open>publishDate \<ge> now - 3 days\<close>; if that search throws, the next
  and only other search is the unfiltered one of the same size, and unless another call
  throws the run ends with a response that carries no error. A query without the keywords
  makes the unfiltered search alone.
\<close>

theorem recent_query_retrieval:
  assumes opt: "destructureOptions topKResults arg = Inr opts"
    and miss: "useCache opts \<longrightarrow> redis_getCachedQueryResult ev [] q = Inr None"
    and emb: "embedding_generateEmbedding ev (if useCache opts then [GetCachedQueryResult q] else []) q = Inr emb"
  shows "(isRecentNewsQuery q \<longrightarrow>
           (case vector_searchSimilar ev
                   ((if useCache opts then [GetCachedQueryResult q] else []) @ [GenerateEmbedding q])
                   emb (maxResults opts * 2) (Some (PublishDateGte (now - 259200000))) of
              Inr _ \<Rightarrow> searches (snd (processQuery True topKResults ev q sid arg now)) =
                         [SearchSimilar emb (maxResults opts * 2) (Some (PublishDateGte (now - 259200000)))]
            | Inl _ \<Rightarrow> searches (snd (processQuery True topKResults ev q sid arg now)) =
                         [SearchSimilar emb (maxResults opts * 2) (Some (PublishDateGte (now - 259200000))),
                          SearchSimilar emb (maxResults opts * 2) None] \<and>
                       (failures (snd (processQuery True topKResults ev q sid arg now)) = [] \<longrightarrow>
                          (\<exists>r. fst (processQuery True topKResults ev q sid arg now) = Inr r \<and>
                               response_error r = None \<and> \<not> cached r))))
       \<and> (\<not> isRecentNewsQuery q \<longrightarrow>
             searches (snd (processQuery True topKResults ev q sid arg now)) =
               [SearchSimilar emb (maxResults opts * 2) None])"
proof -
  from processQuery_trace[OF opt, of ev q sid now] obtain ext where
    ext: "snd (processQuery True topKResults ev q sid arg now) = snd (tryBlock ev q sid opts now) @ ext"
         "searches ext = []"
         "failures (snd (processQuery True topKResults ev q sid arg now)) = failures (snd (tryBlock ev q sid opts now)) @ failures ext"
    by blast
  have s: "searches (snd (processQuery True topKResults ev q sid arg now)) = searches (snd (tryBlock ev q sid opts now))"
    using ext(1,2) by (simp add: searches_append)
  have ok: "\<exists>r. fst (processQuery True topKResults ev q sid arg now) = Inr r \<and> response_error r = None \<and> \<not> cached r"
    if "failures (snd (processQuery True topKResults ev q sid arg now)) = []"
  proof (cases "tryBlock ev q sid opts now")
    case (Pair res tr)
    from extends_tryBlock[of ev q sid opts now] Pair
    have f: "failures tr = (case res of Inl e \<Rightarrow> [e] | Inr _ \<Rightarrow> [])"
      by (simp add: extends_def)
    from that ext(3) Pair have "failures tr = []" by simp
    with f obtain r where r: "res = Inr r" by (cases res) auto
    with Pair tryBlock_miss_result[of ev q sid opts now r] miss
    show ?thesis by (simp add: processQuery_def opt)
  qed
  show ?thesis
    unfolding s using tryBlock_searches[OF miss emb, of sid now] ok
    by (auto simp: threeDaysAgo_def split: sum.splits)
qed

theorem recent_query_retrieval_witness:
  "isRecentNewsQuery (js ''what is the latest news'') \<and>
   fst (processQuery True 5
          (stubEnv (Inr []) (\<lambda>f. case f of Some _ \<Rightarrow> Inl (ProviderError (js ''Bad Request'')) | None \<Rightarrow> Inr []))
          (js ''what is the latest news'') (js ''s1'') OptionsOmitted 1000000000) =
     Inr \<lparr>query = js ''what is the latest news'', response_text = js ''summary'',
          model = js ''fallback-enhanced'', sources = [], contextUsed = 0, sessionId = js ''s1'',
          timestamp = 1000000000, cached = False, tokensUsed = Some 0, response_error = None\<rparr> \<and>
   searches (snd (processQuery True 5
          (stubEnv (Inr []) (\<lambda>f. case f of Some _ \<Rightarrow> Inl (ProviderError (js ''Bad Request'')) | None \<Rightarrow> Inr []))
          (js ''what is the latest news'') (js ''s1'') OptionsOmitted 1000000000)) =
     [SearchSimilar [] 10 (Some (PublishDateGte 740800000)), SearchSimilar [] 10 None]"
proof -
  have r: "isRecentNewsQuery (js ''what is the latest news'')"
    by (simp add: isRecentNewsQuery_def js_def toLowerCase_def matchesAt_def)
  have p: "fst (processQuery True 5
          (stubEnv (Inr []) (\<lambda>f. case f of Some _ \<Rightarrow> Inl (ProviderError (js ''Bad Request'')) | None \<Rightarrow> Inr []))
          (js ''what is the latest news'') (js ''s1'') OptionsOmitted 1000000000) =
     Inr \<lparr>query = js ''what is the latest news'', response_text = js ''summary'',
          model = js ''fallback-enhanced'', sources = [], contextUsed = 0, sessionId = js ''s1'',
          timestamp = 1000000000, cached = False, tokensUsed = Some 0, response_error = None\<rparr>"
    using r
    by (simp add: processQuery_def destructureOptions_def double_0_3_def tryBlock_def andThen_def invoke_def retrieve_def persist_def
        relevant_def slice0_def extractSources_def stubEnv_def default_options_def truthy_def Let_def
        js_def)
  show ?thesis
    using r p recent_query_retrieval[where opts = "default_options 5" and arg = OptionsOmitted and
        topKResults = 5 and
        ev = "stubEnv (Inr []) (\<lambda>f. case f of Some _ \<Rightarrow> Inl (ProviderError (js ''Bad Request'')) | None \<Rightarrow> Inr [])"
        and q = "js ''what is the latest news''" and emb = "[]" and now = 1000000000 and sid = "js ''s1''"]
    by (simp add: stubEnv_def default_options_def destructureOptions_def)
qed

text \<open>
  Claim C10. \<open>extractSources\<close> returns at most five sources, with pairwise distinct
  URLs, in the order of the results; each comes from a result whose payload has a
  non-empty \<open>articleUrl\<close>, so results without payload or URL give none. Some run returns a
  response with \<open>contextUsed > 0\<close> and no source.
\<close>

theorem extractSources_sources:
  "length (extractSources rs) \<le> 5 \<and>
   distinct (map url (extractSources rs)) \<and>
   subseq (map url (extractSources rs)) (List.map_filter resultUrl rs) \<and>
   (\<forall>s \<in> set (extractSources rs). fromResult rs s) \<and>
   (\<exists>topKResults ev q sid arg now r.
        fst (processQuery True topKResults ev q sid arg now) = Inr r \<and>
        contextUsed r > 0 \<and> sources r = [])"
proof -
  have "fst (processQuery True 5 (stubEnv (Inr []) (\<lambda>f. Inr [barePayloadResult])) (js ''hello'')
          (js ''s1'') OptionsOmitted 0) =
        Inr \<lparr>query = js ''hello'', response_text = js ''summary'',
          model = js ''fallback-enhanced'', sources = [], contextUsed = 1, sessionId = js ''s1'',
          timestamp = 0, cached = False, tokensUsed = Some 0, response_error = None\<rparr>"
    by (simp add: processQuery_def destructureOptions_def double_0_3_def tryBlock_def andThen_def invoke_def retrieve_def persist_def
        relevant_def slice0_def extractSources_def stubEnv_def default_options_def truthy_def Let_def
        js_def isRecentNewsQuery_def toLowerCase_def matchesAt_def barePayloadResult_def)
  then have "\<exists>topKResults ev q sid arg now r.
        fst (processQuery True topKResults ev q sid arg now) = Inr r \<and>
        contextUsed r > 0 \<and> sources r = []"
    by (intro exI conjI) (assumption, simp_all)
  then show ?thesis using extract_props[of rs] by blast
qed

theorem extractSources_sources_witness:
  "map url (extractSources [linkedResult 1 (9 / 10) (js ''a''), barePayloadResult,
                   linkedResult 2 (8 / 10) (js ''a''), linkedResult 3 (7 / 10) (js ''b'')]) =
     [js ''a'', js ''b''] \<and>
   fromResult [linkedResult 1 (9 / 10) (js ''a''), barePayloadResult,
                   linkedResult 2 (8 / 10) (js ''a''), linkedResult 3 (7 / 10) (js ''b'')]
     (hd (extractSources [linkedResult 1 (9 / 10) (js ''a''), barePayloadResult,
                   linkedResult 2 (8 / 10) (js ''a''), linkedResult 3 (7 / 10) (js ''b'')]))"
proof -
  have m: "map url (extractSources [linkedResult 1 (9 / 10) (js ''a''), barePayloadResult,
                   linkedResult 2 (8 / 10) (js ''a''), linkedResult 3 (7 / 10) (js ''b'')]) =
     [js ''a'', js ''b'']"
    by (simp add: extractSources_def slice0_def linkedResult_def barePayloadResult_def
        truthy_def js_def)
  then have "extractSources [linkedResult 1 (9 / 10) (js ''a''), barePayloadResult,
                   linkedResult 2 (8 / 10) (js ''a''), linkedResult 3 (7 / 10) (js ''b'')] \<noteq> []"
    by auto
  then have "hd (extractSources [linkedResult 1 (9 / 10) (js ''a''), barePayloadResult,
                   linkedResult 2 (8 / 10) (js ''a''), linkedResult 3 (7 / 10) (js ''b'')])
     \<in> set (extractSources [linkedResult 1 (9 / 10) (js ''a''), barePayloadResult,
                   linkedResult 2 (8 / 10) (js ''a''), linkedResult 3 (7 / 10) (js ''b'')])"
    by (rule hd_in_set)
  then show ?thesis
    using m extractSources_sources[of "[linkedResult 1 (9 / 10) (js ''a''), barePayloadResult,
                   linkedResult 2 (8 / 10) (js ''a''), linkedResult 3 (7 / 10) (js ''b'')]"]
    by blast
qed

section \<open>Properties of the vector store\<close>

text \<open>
  \<open>upsertVector\<close> checks the dimension before it stores or sends anything: a vector of
  another length is rejected and the store is as before.
\<close>

lemma upsertVector_rejects_mismatch:
  assumes "store_isInitialized s" "vector d = Some v" "int (length v) \<noteq> vectorSize s"
  shows "upsertVector remote s d = (Inl (if truthy (data_id d) then VectorSizeMismatch (vectorSize s) (int (length v)) else InvalidVectorData), s)"
  using assms by (simp add: upsertVector_def)

lemma length_mapSet_same: "length (mapSet k v (mapSet k v' m)) = length (mapSet k v' m)"
  by (induction m) auto

text \<open>With the in-memory map, a second upsert under the same id replaces the first.\<close>

lemma upsertVector_same_id_count:
  assumes "store_isInitialized s" "\<not> hasClient s" "vector d = Some v" "vector d' = Some v'"
    "int (length v) = vectorSize s" "int (length v') = vectorSize s" "truthy (data_id d)"
    "data_id d' = data_id d"
  shows "countVectors rc (snd (upsertVector remote (snd (upsertVector remote s d)) d')) =
         countVectors rc (snd (upsertVector remote s d))"
  using assms by (simp add: upsertVector_def countVectors_def length_mapSet_same)

text \<open>
  Claim C4. The id of a record is computed from the id string the caller passes, which
  ingestion builds from the article id and the chunk index; the chunk text takes no part.
  Two chunks with the same text under different article ids are hashed to different point
  ids, and in the in-memory store they are two records: the count after the second upsert
  is 2.
\<close>

theorem same_text_stored_twice:
  "countVectors rc (snd (upsertVector remote
       (snd (upsertVector remote (initializeFallback (newVectorStore 768))
          \<lparr>data_id = js ''a1_chunk_0'', vector = Some (replicate 768 0),
           data_payload = Some (textPayload (js ''a1'') (js ''Same text.''))\<rparr>))
       \<lparr>data_id = js ''a2_chunk_0'', vector = Some (replicate 768 0),
        data_payload = Some (textPayload (js ''a2'') (js ''Same text.''))\<rparr>)) = Inr 2
   \<and> hashId (js ''a1_chunk_0'') = 1432221297 \<and> hashId (js ''a2_chunk_0'') = 1055291536"
  by (simp add: upsertVector_def countVectors_def initializeFallback_def newVectorStore_def
      truthy_def js_def hashId_def hashStep_def toInt32_def)

text \<open>
  Claim C5. \<open>upsertBatch\<close> has no dimension check. On the in-memory store a batch with a
  vector of length 3, where 768 is configured, returns normally and the record is stored;
  the same record through \<open>upsertVector\<close> is rejected.
\<close>

theorem upsertBatch_stores_mismatched_vector:
  "upsertBatch remote (initializeFallback (newVectorStore 768))
     [\<lparr>data_id = js ''a1_chunk_0'', vector = Some [1, 2, 3], data_payload = None\<rparr>] =
   (Inr (), \<lparr>hasClient = False, store_isInitialized = True, vectorSize = 768,
             inMemoryVectors = [(js ''a1_chunk_0'', \<lparr>entry_vector = Some [1, 2, 3], entry_payload = None\<rparr>)],
             upserts = []\<rparr>)
   \<and> fst (upsertVector remote (initializeFallback (newVectorStore 768))
     \<lparr>data_id = js ''a1_chunk_0'', vector = Some [1, 2, 3], data_payload = None\<rparr>) = Inl (VectorSizeMismatch 768 3)"
  by (simp add: upsertBatch_def upsertVector_def initializeFallback_def newVectorStore_def truthy_def js_def)

section \<open>Properties of the embedding service\<close>






section \<open>Properties of the chunkers\<close>

lemma lastIndexOf_upto_bound:
  "pat \<noteq> [] \<Longrightarrow> lastIndexOf_upto s pat i < int (length s) \<or> lastIndexOf_upto s pat i = - 1"
proof (induction i)
  case 0
  then show ?case by (cases s) (auto simp: matchesAt_def)
next
  case (Suc i)
  have "matchesAt s pat (Suc i) \<Longrightarrow> Suc i < length s"
    using Suc.prems by (cases "Suc i < length s") (auto simp: matchesAt_def)
  then show ?case using Suc by auto
qed

lemma lastIndexOfFrom_bound: "pat \<noteq> [] \<Longrightarrow> lastIndexOfFrom s pat k < int (length s)"
  using lastIndexOf_upto_bound[of pat s "nat (max 0 (min k (int (length s))))"]
  by (auto simp: lastIndexOfFrom_def)

lemma textChunkEnd_le: "textChunkEnd fullText maxChunkSize start \<le> int (length fullText)"
  using lastIndexOfFrom_bound[of "[46]" fullText "min (start + maxChunkSize) (int (length fullText))"]
        lastIndexOfFrom_bound[of "[10]" fullText "min (start + maxChunkSize) (int (length fullText))"]
  by (auto simp: textChunkEnd_def Let_def)

text \<open>
  With a positive overlap the next start of \<open>createTextChunks\<close> lies below the end of the
  chunk, which is at most the length of the text: the guard \<open>start >= chunkEnd\<close> never
  fires and the loop condition never fails.
\<close>

lemma textLoop_runs_on:
  assumes "0 < overlap"
  shows "start < int (length fullText) \<Longrightarrow>
         textLoop fuel fullText aid maxChunkSize overlap start chunkIndex chunks = None"
proof (induction fuel arbitrary: start chunkIndex chunks)
  case 0
  then show ?case by simp
next
  case (Suc fuel)
  have lt: "textChunkEnd fullText maxChunkSize start - overlap < int (length fullText)"
    using textChunkEnd_le[of fullText maxChunkSize start] assms by simp
  have nb: "\<not> textChunkEnd fullText maxChunkSize start - overlap \<ge> textChunkEnd fullText maxChunkSize start"
    using assms by simp
  show ?case using Suc.prems nb Suc.IH[OF lt]
    by (simp add: Let_def del: textLoop.simps(1))
qed

text \<open>
  Claim C3. On a short article, with the default parameters 1000 and 200,
  \<open>createTextChunks\<close> does not return, whatever the number of iterations followed: the
  window start is \<open>-173\<close> after the first pass and again after every later one.
\<close>

theorem createTextChunks_runs_forever:
  "createTextChunks fuel shortArticle 1000 200 = None \<and>
   textChunkEnd (fullTextOf shortArticle) 1000 0 - 200 = - 173 \<and>
   textChunkEnd (fullTextOf shortArticle) 1000 (- 173) - 200 = - 173"
proof -
  have "createTextChunks fuel shortArticle 1000 200 = None"
    unfolding createTextChunks_def
    by (rule textLoop_runs_on) (simp_all add: fullTextOf_def shortArticle_def js_def)
  then show ?thesis
    by (simp add: textChunkEnd_def fullTextOf_def shortArticle_def js_def)
qed

text \<open>
  The loop of \<open>createTextChunksWithOverlap\<close> does what the claim says: with
  \<open>overlap < chunkSize\<close> the window start grows in every pass, and the function returns
  within as many passes as the text has characters.
\<close>

lemma overlap_progress:
  "overlap < chunkSize \<Longrightarrow> start < overlapNextStart t chunkSize overlap start"
  by (simp add: overlapNextStart_def)

lemma overlapLoop_returns:
  assumes "overlap < chunkSize"
  shows "nat (int (length t) - start) < fuel \<Longrightarrow>
         \<exists>cs. overlapLoop fuel t aid chunkSize overlap start chunkIndex chunks = Some cs"
proof (induction fuel arbitrary: start chunkIndex chunks)
  case 0
  then show ?case by simp
next
  case (Suc fuel)
  show ?case
  proof (cases "start < int (length t)")
    case False
    then show ?thesis by simp
  next
    case True
    let ?s = "overlapNextStart t chunkSize overlap start"
    have p: "start < ?s" using assms by (rule overlap_progress)
    show ?thesis
    proof (cases "?s \<ge> int (length t)")
      case True
      then show ?thesis using \<open>start < int (length t)\<close> by (simp add: Let_def)
    next
      case False
      have "nat (int (length t) - ?s) < fuel" using p Suc.prems True by linarith
      from Suc.IH[OF this] show ?thesis using True False by (simp add: Let_def)
    qed
  qed
qed

lemma createTextChunksWithOverlap_returns:
  assumes "overlap < chunkSize"
  shows "\<exists>cs. createTextChunksWithOverlap
                (Suc (length (article_title a @ [10, 10] @ article_content a))) a chunkSize overlap
              = Some cs"
proof -
  define t where "t = article_title a @ [10, 10] @ article_content a"
  have "nat (int (length t) - 0) < Suc (length t)" by simp
  from overlapLoop_returns[OF assms this, of "article_id a" 0 "[]"] obtain cs where
    "overlapLoop (Suc (length t)) t (article_id a) chunkSize overlap 0 0 [] = Some cs" by blast
  then show ?thesis
    unfolding createTextChunksWithOverlap_def Let_def t_def[symmetric]
    by (cases "int (length t) \<le> chunkSize") (simp_all del: overlapLoop.simps)
qed

section \<open>Properties of the key-value client\<close>

subsection \<open>The chat log\<close>

lemma memAddMessage_log:
  assumes "0 < chatHistoryLimit cfg"
  shows "chatLog (memAddMessage cfg sid m now s) sid' =
         (if sid' = sid then take (nat (chatHistoryLimit cfg)) (stamp m now # chatLog s sid)
          else chatLog s sid')"
  using assms
  by (auto simp: memAddMessage_def chatLog_def Let_def splice_def clampIndex_def min_def
      split: option.splits)

lemma chatLog_flag [simp]: "chatLog (s\<lparr>fallbackMode := b\<rparr>) sid = chatLog s sid"
  by (simp add: chatLog_def)

lemma chatLog_send [simp]: "chatLog (snd (send srv c s)) sid = chatLog s sid"
  by (simp add: send_def chatLog_def)

lemma memAddMessage_bounded:
  assumes "0 < chatHistoryLimit cfg" "bounded cfg s"
  shows "bounded cfg (memAddMessage cfg sid m now s)"
  using assms unfolding bounded_def by (auto simp: memAddMessage_log)

lemma bounded_flag [simp]: "bounded cfg (s\<lparr>fallbackMode := b\<rparr>) = bounded cfg s"
  by (simp add: bounded_def)

lemma bounded_send [simp]: "bounded cfg (snd (send srv c s)) = bounded cfg s"
  by (simp add: bounded_def)

lemma send_eq: "send srv c s = (r, s') \<Longrightarrow> s' = snd (send srv c s)"
  by simp

lemma addMessage_bounded:
  assumes "0 < chatHistoryLimit cfg" "bounded cfg s"
  shows "bounded cfg (addMessage cfg srv sid m now s)"
  using assms
  by (auto simp: addMessage_def memAddMessage_bounded split: prod.splits sum.splits dest!: send_eq)

lemma addMessage_mem:
  assumes "\<not> getClient s"
  shows "\<not> getClient (addMessage cfg srv sid m now s) \<and>
         (\<forall>sid'. chatLog (addMessage cfg srv sid m now s) sid' =
                 chatLog (memAddMessage cfg sid m now s) sid')"
  using assms
  by (auto simp: addMessage_def getClient_def memAddMessage_def chatLog_def Let_def split: if_splits)

lemma addMessages_log:
  assumes N: "0 < chatHistoryLimit cfg"
  shows "\<not> getClient s \<Longrightarrow> int (length (chatLog s sid)) \<le> chatHistoryLimit cfg \<Longrightarrow>
         chatLog (addMessages cfg srv sid ms s) sid =
           take (nat (chatHistoryLimit cfg)) (rev (stamped ms) @ chatLog s sid)
         \<and> \<not> getClient (addMessages cfg srv sid ms s)"
proof (induction ms arbitrary: s)
  case Nil
  then show ?case by (simp add: addMessages_def stamped_def)
next
  case (Cons p ms)
  obtain m now where p: "p = (m, now)" by (cases p)
  let ?s1 = "addMessage cfg srv sid m now s"
  from addMessage_mem[OF Cons.prems(1), of cfg srv sid m now]
  have g1: "\<not> getClient ?s1"
    and l1: "chatLog ?s1 sid = take (nat (chatHistoryLimit cfg)) (stamp m now # chatLog s sid)"
    using N by (simp_all add: memAddMessage_log)
  have b1: "int (length (chatLog ?s1 sid)) \<le> chatHistoryLimit cfg" unfolding l1 using N by simp
  have step: "addMessages cfg srv sid (p # ms) s = addMessages cfg srv sid ms ?s1"
    by (simp add: addMessages_def p)
  from Cons.IH[OF g1 b1]
  have "chatLog (addMessages cfg srv sid ms ?s1) sid =
          take (nat (chatHistoryLimit cfg)) (rev (stamped ms) @ chatLog ?s1 sid)"
    and g: "\<not> getClient (addMessages cfg srv sid ms ?s1)" by simp_all
  moreover have "take (nat (chatHistoryLimit cfg)) (rev (stamped ms) @ chatLog ?s1 sid) =
        take (nat (chatHistoryLimit cfg)) (rev (stamped (p # ms)) @ chatLog s sid)"
    unfolding l1 by (simp add: stamped_def p take_Cons' min_def)
  ultimately show ?case unfolding step by simp
qed

lemma memGetChatHistory_log: "memGetChatHistory sid limit s = rev (slice0 (chatLog s sid) limit)"
  by (simp add: memGetChatHistory_def chatLog_def)

lemma getChatHistory_mem:
  "\<not> getClient s \<Longrightarrow> fst (getChatHistory srv sid limit s) = rev (slice0 (chatLog s sid) limit)"
  by (auto simp: getChatHistory_def getClient_def memGetChatHistory_log split: if_splits)

lemma addMessages_bounded:
  assumes "0 < chatHistoryLimit cfg"
  shows "bounded cfg s \<Longrightarrow> bounded cfg (addMessages cfg srv sid ms s)"
proof (induction ms arbitrary: s)
  case Nil
  then show ?case by (simp add: addMessages_def)
next
  case (Cons p ms)
  obtain m now where p: "p = (m, now)" by (cases p)
  have "addMessages cfg srv sid (p # ms) s = addMessages cfg srv sid ms (addMessage cfg srv sid m now s)"
    by (simp add: addMessages_def p)
  then show ?case using Cons.IH[OF addMessage_bounded[OF assms Cons.prems]] by simp
qed

lemma downClient_simps:
  "fallbackMode downClient" "\<not> getClient downClient" "chatLog downClient sid = []"
  "clientCalls downClient = []" "inMemoryLists downClient = Map.empty"
  by (simp_all add: downClient_def connect_def attemptConnection_def newRedisClient_def
      getClient_def chatLog_def)

lemma liveClient_simps:
  "getClient liveClient" "clientCalls liveClient = []"
  by (simp_all add: liveClient_def connect_def attemptConnection_def newRedisClient_def
      getClient_def onEvent_def)

lemma keepsLists_accepts:
  assumes "keepsLists srv"
  shows "\<exists>r. srv h c = Inr r"
proof -
  from assms have "case c of LRange k a b \<Rightarrow> srv h c = Inr (Items (lrange (listAfter h k) a b))
                           | _ \<Rightarrow> (\<exists>r. srv h c = Inr r)"
    unfolding keepsLists_def by blast
  then show ?thesis by (cases c) auto
qed

lemma keepsLists_lrange:
  assumes "keepsLists srv"
  shows "srv h (LRange k a b) = Inr (Items (lrange (listAfter h k) a b))"
  using assms[unfolded keepsLists_def, rule_format, of h "LRange k a b"] by simp

lemma keepsLists_storeServer: "keepsLists storeServer"
  by (auto simp: keepsLists_def storeServer_def split: command.splits)

lemma lrange_take: "0 < n \<Longrightarrow> lrange l 0 (n - 1) = take (nat n) l"
  by (cases l) (auto simp: lrange_def Let_def min_def)

lemma addMessage_served:
  assumes "getClient s" "keepsLists srv"
  shows "addMessage cfg srv sid m now s =
         s\<lparr>clientCalls := clientCalls s @
              [LPush (ChatKey sid) (stamp m now),
               LTrim (ChatKey sid) 0 (chatHistoryLimit cfg - 1),
               Expire (ChatKey sid) (config_ttl cfg)]\<rparr>"
proof -
  obtain r1 where r1: "srv (clientCalls s) (LPush (ChatKey sid) (stamp m now)) = Inr r1"
    using keepsLists_accepts[OF assms(2)] by blast
  obtain r2 where r2: "srv (clientCalls s @ [LPush (ChatKey sid) (stamp m now)])
                           (LTrim (ChatKey sid) 0 (chatHistoryLimit cfg - 1)) = Inr r2"
    using keepsLists_accepts[OF assms(2)] by blast
  obtain r3 where r3: "srv (clientCalls s @ [LPush (ChatKey sid) (stamp m now),
                                             LTrim (ChatKey sid) 0 (chatHistoryLimit cfg - 1)])
                           (Expire (ChatKey sid) (config_ttl cfg)) = Inr r3"
    using keepsLists_accepts[OF assms(2)] by blast
  show ?thesis using assms(1) r1 r2 r3
    by (auto simp: addMessage_def getClient_def send_def split: if_splits)
qed

lemma listAfter_append: "listAfter (h @ h') k = foldl (listStep k) (listAfter h k) h'"
  by (simp add: listAfter_def)

lemma listAfter_served:
  assumes "0 < chatHistoryLimit cfg"
  shows "listAfter (h @ [LPush (ChatKey sid) x,
               LTrim (ChatKey sid) 0 (chatHistoryLimit cfg - 1),
               Expire (ChatKey sid) t]) (ChatKey sid) =
         take (nat (chatHistoryLimit cfg)) (x # listAfter h (ChatKey sid))"
  using assms by (simp add: listAfter_append listStep_def lrange_take)

lemma addMessages_served:
  assumes N: "0 < chatHistoryLimit cfg" and srv: "keepsLists srv"
  shows "getClient s \<Longrightarrow>
         int (length (listAfter (clientCalls s) (ChatKey sid))) \<le> chatHistoryLimit cfg \<Longrightarrow>
         getClient (addMessages cfg srv sid ms s) \<and>
         listAfter (clientCalls (addMessages cfg srv sid ms s)) (ChatKey sid) =
           take (nat (chatHistoryLimit cfg))
                (rev (stamped ms) @ listAfter (clientCalls s) (ChatKey sid))"
proof (induction ms arbitrary: s)
  case Nil
  then show ?case by (simp add: addMessages_def stamped_def)
next
  case (Cons p ms)
  obtain m now where p: "p = (m, now)" by (cases p)
  let ?s1 = "addMessage cfg srv sid m now s"
  have s1: "?s1 = s\<lparr>clientCalls := clientCalls s @
              [LPush (ChatKey sid) (stamp m now),
               LTrim (ChatKey sid) 0 (chatHistoryLimit cfg - 1),
               Expire (ChatKey sid) (config_ttl cfg)]\<rparr>"
    using addMessage_served[OF Cons.prems(1) srv] .
  have g1: "getClient ?s1" using Cons.prems(1) unfolding s1 by (auto simp: getClient_def split: if_splits)
  have l1: "listAfter (clientCalls ?s1) (ChatKey sid) =
            take (nat (chatHistoryLimit cfg)) (stamp m now # listAfter (clientCalls s) (ChatKey sid))"
    unfolding s1 using listAfter_served[OF N] by simp
  have b1: "int (length (listAfter (clientCalls ?s1) (ChatKey sid))) \<le> chatHistoryLimit cfg"
    unfolding l1 using N by simp
  have step: "addMessages cfg srv sid (p # ms) s = addMessages cfg srv sid ms ?s1"
    by (simp add: addMessages_def p)
  have t: "take (nat (chatHistoryLimit cfg)) (rev (stamped ms) @
              take (nat (chatHistoryLimit cfg)) (stamp m now # listAfter (clientCalls s) (ChatKey sid))) =
        take (nat (chatHistoryLimit cfg)) (rev (stamped (p # ms)) @ listAfter (clientCalls s) (ChatKey sid))"
    by (simp add: stamped_def p take_Cons' min_def)
  from Cons.IH[OF g1 b1] show ?case unfolding step l1 t by simp
qed

lemma getChatHistory_served:
  assumes "getClient s" "srv (clientCalls s) (LRange (ChatKey sid) 0 (limit - 1)) = Inr (Items items)"
  shows "fst (getChatHistory srv sid limit s) = rev items"
  using assms by (auto simp: getChatHistory_def getClient_def send_def split: if_splits)

text \<open>
  Claim C8, as the code has it. With a positive \<open>chatHistoryLimit\<close> \<open>N\<close> and a client
  that stays in one mode, the chat log is bounded and read back in order, in both modes.
  In process, every \<open>addMessage\<close> call, and so every sequence of them, keeps each chat log
  within \<open>N\<close> messages; appending \<open>N + 10\<close> messages to an empty log leaves exactly the
  last \<open>N\<close> of them; and \<open>getChatHistory\<close> returns the most recent \<open>limit\<close> messages
  oldest first, the most recent one last. With a usable networked client and a server that
  answers \<open>LRANGE\<close> from the list it was sent, every \<open>addMessage\<close> sends \<open>LPUSH\<close>, then
  \<open>LTRIM 0 (N - 1)\<close>, then \<open>EXPIRE\<close>, after which the server's list holds at most \<open>N\<close>
  messages; appending \<open>N + 10\<close> messages to an empty list leaves exactly the last \<open>N\<close> of
  them on the server; and \<open>getChatHistory\<close> sends \<open>LRANGE 0 (limit - 1)\<close> and returns the
  reply reversed, so again oldest first and the most recent message last.
\<close>

theorem chat_log_bounded:
  assumes "0 < chatHistoryLimit cfg"
  shows "(bounded cfg s \<longrightarrow> bounded cfg (addMessage cfg srv sid m now s) \<and>
                           bounded cfg (addMessages cfg srv sid ms s))
     \<and> (\<not> getClient s \<and> chatLog s sid = [] \<and> int (length ms) = chatHistoryLimit cfg + 10 \<longrightarrow>
          chatLog (addMessages cfg srv sid ms s) sid = rev (drop 10 (stamped ms)) \<and>
          int (length (chatLog (addMessages cfg srv sid ms s) sid)) = chatHistoryLimit cfg \<and>
          fst (getChatHistory srv sid (chatHistoryLimit cfg) (addMessages cfg srv sid ms s)) =
            drop 10 (stamped ms))
     \<and> (\<not> getClient s \<longrightarrow>
          fst (getChatHistory srv sid limit s) = rev (slice0 (chatLog s sid) limit))
     \<and> (getClient s \<and> keepsLists srv \<longrightarrow>
          addMessage cfg srv sid m now s =
            s\<lparr>clientCalls := clientCalls s @
                 [LPush (ChatKey sid) (stamp m now),
                  LTrim (ChatKey sid) 0 (chatHistoryLimit cfg - 1),
                  Expire (ChatKey sid) (config_ttl cfg)]\<rparr> \<and>
          int (length (listAfter (clientCalls (addMessage cfg srv sid m now s)) (ChatKey sid)))
            \<le> chatHistoryLimit cfg)
     \<and> (getClient s \<and> keepsLists srv \<and> listAfter (clientCalls s) (ChatKey sid) = [] \<and>
         int (length ms) = chatHistoryLimit cfg + 10 \<longrightarrow>
          listAfter (clientCalls (addMessages cfg srv sid ms s)) (ChatKey sid) =
            rev (drop 10 (stamped ms)) \<and>
          fst (getChatHistory srv sid (chatHistoryLimit cfg) (addMessages cfg srv sid ms s)) =
            drop 10 (stamped ms))
     \<and> (getClient s \<and>
         srv (clientCalls s) (LRange (ChatKey sid) 0 (limit - 1)) = Inr (Items items) \<longrightarrow>
          fst (getChatHistory srv sid limit s) = rev items)"
proof (intro conjI impI)
  assume "bounded cfg s"
  then show "bounded cfg (addMessage cfg srv sid m now s)" using assms by (simp add: addMessage_bounded)
  show "bounded cfg (addMessages cfg srv sid ms s)" using assms \<open>bounded cfg s\<close> by (simp add: addMessages_bounded)
next
  assume "\<not> getClient s"
  then show "fst (getChatHistory srv sid limit s) = rev (slice0 (chatLog s sid) limit)"
    by (rule getChatHistory_mem)
next
  assume a: "\<not> getClient s \<and> chatLog s sid = [] \<and> int (length ms) = chatHistoryLimit cfg + 10"
  then have len: "length (stamped ms) = nat (chatHistoryLimit cfg) + 10"
    using assms unfolding stamped_def length_map by linarith
  from addMessages_log[OF assms, of s sid srv ms] a
  have l: "chatLog (addMessages cfg srv sid ms s) sid = take (nat (chatHistoryLimit cfg)) (rev (stamped ms))"
    and g: "\<not> getClient (addMessages cfg srv sid ms s)" using assms by simp_all
  show 1: "chatLog (addMessages cfg srv sid ms s) sid = rev (drop 10 (stamped ms))"
    unfolding l using len by (simp add: take_rev)
  show 2: "int (length (chatLog (addMessages cfg srv sid ms s) sid)) = chatHistoryLimit cfg"
    unfolding 1 using len assms by simp
  have "slice0 (rev (drop 10 (stamped ms))) (chatHistoryLimit cfg) = rev (drop 10 (stamped ms))"
    using len assms by (simp add: slice0_def)
  then show "fst (getChatHistory srv sid (chatHistoryLimit cfg) (addMessages cfg srv sid ms s)) =
            drop 10 (stamped ms)"
    using getChatHistory_mem[OF g, of srv sid "chatHistoryLimit cfg"] 1 by simp
next
  assume a: "getClient s \<and> keepsLists srv"
  then show e: "addMessage cfg srv sid m now s =
            s\<lparr>clientCalls := clientCalls s @
                 [LPush (ChatKey sid) (stamp m now),
                  LTrim (ChatKey sid) 0 (chatHistoryLimit cfg - 1),
                  Expire (ChatKey sid) (config_ttl cfg)]\<rparr>"
    by (simp add: addMessage_served)
  show "int (length (listAfter (clientCalls (addMessage cfg srv sid m now s)) (ChatKey sid)))
            \<le> chatHistoryLimit cfg"
    unfolding e
    using listAfter_served[OF assms, of "clientCalls s" sid "stamp m now" "config_ttl cfg"] assms
    by simp
next
  assume a: "getClient s \<and> keepsLists srv \<and> listAfter (clientCalls s) (ChatKey sid) = [] \<and>
         int (length ms) = chatHistoryLimit cfg + 10"
  then have len: "length (stamped ms) = nat (chatHistoryLimit cfg) + 10"
    using assms unfolding stamped_def length_map by linarith
  from a have srv: "keepsLists srv" by simp
  from addMessages_served[OF assms srv, of s sid ms] a
  have g: "getClient (addMessages cfg srv sid ms s)"
    and l: "listAfter (clientCalls (addMessages cfg srv sid ms s)) (ChatKey sid) =
            take (nat (chatHistoryLimit cfg)) (rev (stamped ms))"
    using assms by simp_all
  show 1: "listAfter (clientCalls (addMessages cfg srv sid ms s)) (ChatKey sid) =
            rev (drop 10 (stamped ms))"
    unfolding l using len by (simp add: take_rev)
  have "lrange (rev (drop 10 (stamped ms))) 0 (chatHistoryLimit cfg - 1) = rev (drop 10 (stamped ms))"
    using len assms by (simp add: lrange_take)
  then have "srv (clientCalls (addMessages cfg srv sid ms s))
                 (LRange (ChatKey sid) 0 (chatHistoryLimit cfg - 1)) =
             Inr (Items (rev (drop 10 (stamped ms))))"
    using keepsLists_lrange[OF srv] 1 by simp
  from getChatHistory_served[where srv = srv and limit = "chatHistoryLimit cfg", OF g this]
  show "fst (getChatHistory srv sid (chatHistoryLimit cfg) (addMessages cfg srv sid ms s)) =
            drop 10 (stamped ms)" by simp
next
  assume "getClient s \<and>
         srv (clientCalls s) (LRange (ChatKey sid) 0 (limit - 1)) = Inr (Items items)"
  then show "fst (getChatHistory srv sid limit s) = rev items"
    by (simp add: getChatHistory_served)
qed

theorem chat_log_bounded_witness:
  "0 < chatHistoryLimit (sessionConfig None (Some 1)) \<and>
   \<not> getClient downClient \<and>
   chatLog (addMessages (sessionConfig None (Some 1)) storeServer (js ''s1'') elevenNotes
              downClient) (js ''s1'') = [stamp (numbered 11) 11] \<and>
   fst (getChatHistory storeServer (js ''s1'') 1
          (addMessages (sessionConfig None (Some 1)) storeServer (js ''s1'') elevenNotes
             downClient)) = [stamp (numbered 11) 11] \<and>
   getClient liveClient \<and> keepsLists (storeServer :: nat server) \<and>
   fst (getChatHistory storeServer (js ''s1'') 1
          (addMessages (sessionConfig None (Some 1)) storeServer (js ''s1'') elevenNotes
             liveClient)) = [stamp (numbered 11) 11]"
  using chat_log_bounded[where cfg = "sessionConfig None (Some 1)" and s = downClient
      and sid = "js ''s1''" and srv = storeServer and ms = elevenNotes]
    chat_log_bounded[where cfg = "sessionConfig None (Some 1)" and s = liveClient
      and sid = "js ''s1''" and srv = storeServer and ms = elevenNotes]
    keepsLists_storeServer[where ?'a = nat]
  by (simp add: downClient_simps liveClient_simps sessionConfig_def parseIntOr_def stamped_def
      elevenNotes_def listAfter_def)

text \<open>
  The bound needs a positive limit and the order needs one mode. \<open>CHAT_HISTORY_LIMIT=-3\<close>
  is taken as it is (\<open>parseInt(...) || 50\<close> replaces only \<open>0\<close> and \<open>NaN\<close>): every append
  then splices the whole in-process log away, which holds \<open>0\<close> messages, not \<open>N\<close> and
  not at most \<open>N\<close>. And with limit \<open>2\<close>, eleven messages sent to the server, a
  connection error and a twelfth message leave \<open>getChatHistory\<close> with the twelfth
  message alone: the in-process log does not hold what went to the server.
\<close>

theorem chat_log_split_counterexample:
  "chatHistoryLimit (sessionConfig None (Some (- 3))) = - 3 \<and>
   chatLog (addMessages (sessionConfig None (Some (- 3))) okServer (js ''s1'')
              [(numbered 1, 1), (numbered 2, 2)] downClient) (js ''s1'') = [] \<and>
   fst (getChatHistory okServer (js ''s1'') 50
          (addMessages (sessionConfig None (Some (- 3))) okServer (js ''s1'')
              [(numbered 1, 1), (numbered 2, 2)] downClient)) = [] \<and>
   chatHistoryLimit (sessionConfig None (Some 2)) = 2 \<and>
   fst (getChatHistory storeServer (js ''s1'') 2
          (addMessage (sessionConfig None (Some 2)) storeServer (js ''s1'') (numbered 12) 12
             (onEvent ErrorEvent
                (addMessages (sessionConfig None (Some 2)) storeServer (js ''s1'') elevenNotes
                   liveClient)))) = [stamp (numbered 12) 12]"
  by (simp add: sessionConfig_def parseIntOr_def downClient_def liveClient_def connect_def
      attemptConnection_def newRedisClient_def onEvent_def getClient_def send_def
      addMessages_def addMessage_def memAddMessage_def splice_def clampIndex_def chatLog_def
      getChatHistory_def memGetChatHistory_def slice0_def storeServer_def okServer_def
      elevenNotes_def Let_def)

subsection \<open>The query cache\<close>



lemma getClient_calls [simp]: "getClient (s\<lparr>clientCalls := h\<rparr>) = getClient s"
  by (simp add: getClient_def)

lemma stringAfter_set [simp]: "stringAfter (h @ [SetEx k ttl v]) k = Some v"
  by (simp add: stringAfter_def stringStep_def)




subsection \<open>Fallback mode\<close>

lemma onEvent_keeps_flag:
  "fallbackMode s \<Longrightarrow> ev \<noteq> ConnectEvent \<Longrightarrow> fallbackMode (onEvent ev s)"
  by (cases ev) (simp_all add: onEvent_def)

lemma events_keep_flag:
  "ConnectEvent \<notin> set evs \<Longrightarrow> fallbackMode s \<Longrightarrow>
   fallbackMode (foldl (\<lambda>st ev. onEvent ev st) s evs)"
proof (induction evs arbitrary: s)
  case Nil
  then show ?case by simp
next
  case (Cons a evs)
  have "a \<noteq> ConnectEvent" using Cons.prems(1) by auto
  with Cons.prems(2) have "fallbackMode (onEvent a s)" by (rule onEvent_keeps_flag)
  moreover have "ConnectEvent \<notin> set evs" using Cons.prems(1) by simp
  ultimately show ?case using Cons.IH by simp
qed

lemma connect_keeps_flag:
  assumes "ConnectEvent \<notin> set evs" "fallbackMode s"
  shows "fallbackMode (connect available evs connectOk s)"
proof -
  have "fallbackMode (foldl (\<lambda>st ev. onEvent ev st)
                        (s\<lparr>connectionAttempted := True, client := True\<rparr>) evs)"
    using assms by (intro events_keep_flag) simp_all
  then show ?thesis using assms(2) by (simp add: connect_def attemptConnection_def Let_def)
qed

text \<open>
  Claim C6, as the code has it. While \<open>fallbackMode\<close> is set, the \<open>error\<close> and
  \<open>disconnect\<close> handlers, \<open>disconnect()\<close>, a \<open>connect()\<close> during which no \<open>connect\<close> event
  fires, and all eight data-path operations leave it set, and each operation sends no
  command to the networked client and returns the same whatever the server would answer.
\<close>

theorem fallback_mode_is_offline:
  assumes "fallbackMode s"
  shows "fallbackMode (onEvent ErrorEvent s) \<and> fallbackMode (onEvent DisconnectEvent s)
     \<and> fallbackMode (disconnect s)
     \<and> (ConnectEvent \<notin> set evs \<longrightarrow> fallbackMode (connect available evs connectOk s))
     \<and> offline s (setSession srv sid v ttl now s)
     \<and> setSession srv sid v ttl now s = setSession srv' sid v ttl now s
     \<and> offline s (snd (getSession srv sid now s))
     \<and> getSession srv sid now s = getSession srv' sid now s
     \<and> offline s (deleteSession srv sid s)
     \<and> deleteSession srv sid s = deleteSession srv' sid s
     \<and> offline s (addMessage cfg srv sid m now s)
     \<and> addMessage cfg srv sid m now s = addMessage cfg srv' sid m now s
     \<and> offline s (snd (getChatHistory srv sid limit s))
     \<and> getChatHistory srv sid limit s = getChatHistory srv' sid limit s
     \<and> offline s (clearChatHistory srv sid s)
     \<and> clearChatHistory srv sid s = clearChatHistory srv' sid s
     \<and> offline s (cacheQueryResult srv q v ttl now s)
     \<and> cacheQueryResult srv q v ttl now s = cacheQueryResult srv' q v ttl now s
     \<and> offline s (snd (getCachedQueryResult srv q now s))
     \<and> getCachedQueryResult srv q now s = getCachedQueryResult srv' q now s"
  using assms connect_keeps_flag[of evs s available connectOk]
  by (simp add: onEvent_def disconnect_def offline_def setSession_def getSession_def deleteSession_def
      addMessage_def getChatHistory_def clearChatHistory_def cacheQueryResult_def
      getCachedQueryResult_def memSet_def memGet_def memDelete_def memAddMessage_def
      memClearChatHistory_def Let_def split: client_event.splits option.splits)

theorem fallback_mode_is_offline_witness:
  "fallbackMode downClient \<and>
   offline downClient (addMessage (sessionConfig None None) okServer (js ''s1'') (numbered 1) 5 downClient) \<and>
   clientCalls (cacheQueryResult okServer (js ''q'') 7 1800 0 downClient) = []"
  using fallback_mode_is_offline[where s = downClient and srv = okServer and srv' = okServer and sid = "js ''s1''"
      and cfg = "sessionConfig None None" and m = "numbered 1" and now = 5]
    fallback_mode_is_offline[where s = downClient and srv = okServer and srv' = okServer and q = "js ''q''"
      and v = 7 and ttl = 1800 and now = 0]
  by (simp add: downClient_simps offline_def)

text \<open>
  The \<open>connect\<close> handler clears the flag: after a connection error a reconnect puts the
  client back into networked mode, and the next \<open>addMessage\<close> goes to the server.
\<close>

theorem fallback_mode_reset_counterexample:
  "fallbackMode (onEvent ErrorEvent liveClient) \<and>
   \<not> fallbackMode (onEvent ConnectEvent (onEvent ErrorEvent liveClient)) \<and>
   clientCalls (addMessage (sessionConfig None None) okServer (js ''s1'') (numbered 1) 5
                  (onEvent ConnectEvent (onEvent ErrorEvent liveClient))) =
     [LPush (ChatKey (js ''s1'')) (stamp (numbered 1) 5),
      LTrim (ChatKey (js ''s1'')) 0 49,
      Expire (ChatKey (js ''s1'')) 3600]"
  by (simp add: liveClient_def connect_def attemptConnection_def newRedisClient_def onEvent_def
      addMessage_def getClient_def send_def okServer_def sessionConfig_def parseIntOr_def)

end
